theory Spec2Isabelle
  imports Complex_Main
begin

section \<open>Python values\<close>

text \<open>
  A Python \<open>str\<close> is a sequence of Unicode code points, and \<open>len\<close>, slicing and
  \<open>rfind\<close> count code points. A string is therefore a list of code points (natural
  numbers); \<open>lit\<close> turns a literal of the source into such a list.
\<close>

type_synonym py_str = "nat list"

definition lit :: "string \<Rightarrow> py_str" where
  "lit s = map of_char s"

definition SPACE :: nat where
  "SPACE = 32"

text \<open>The code points that \<open>str.strip()\<close> removes (those with \<open>str.isspace\<close>).\<close>

definition isspace :: "nat \<Rightarrow> bool" where
  "isspace c \<longleftrightarrow>
     (9 \<le> c \<and> c \<le> 13) \<or> (28 \<le> c \<and> c \<le> 32) \<or> c = 133 \<or> c = 160 \<or> c = 5760 \<or>
     (8192 \<le> c \<and> c \<le> 8202) \<or> c = 8232 \<or> c = 8233 \<or> c = 8239 \<or> c = 8287 \<or> c = 12288"

definition strip :: "py_str \<Rightarrow> py_str" where
  "strip s = rev (dropWhile isspace (rev (dropWhile isspace s)))"

text \<open>
  Slice bounds: a negative index counts from the end, and every index is clamped to
  \<open>[0, len]\<close>.
\<close>

definition clamp_index :: "nat \<Rightarrow> int \<Rightarrow> nat" where
  "clamp_index n i = (if i < 0 then nat (max 0 (i + int n)) else min (nat i) n)"

definition slice :: "'a list \<Rightarrow> int \<Rightarrow> int \<Rightarrow> 'a list" where
  "slice xs i j =
     (let lo = clamp_index (length xs) i; hi = clamp_index (length xs) j
      in take (hi - lo) (drop lo xs))"

text \<open>
  \<open>s.rfind(c, i, j)\<close> for a one-character \<open>c\<close>: the highest index in the slice
  bounds that holds \<open>c\<close>, or \<open>-1\<close>.
\<close>

definition rfind :: "py_str \<Rightarrow> nat \<Rightarrow> int \<Rightarrow> int \<Rightarrow> int" where
  "rfind s c i j =
     (let lo = clamp_index (length s) i; hi = clamp_index (length s) j
      in case filter (\<lambda>k. s ! k = c) (rev [lo..<hi]) of
           [] \<Rightarrow> - 1
         | k # _ \<Rightarrow> int k)"

section \<open>DocumentService: chunking\<close>

record document_service =
  chunk_size :: int
  chunk_overlap :: int

text \<open>The settings that \<open>DocumentService.__init__\<close> fixes.\<close>

definition DocumentService :: document_service where
  "DocumentService = \<lparr>chunk_size = 1000, chunk_overlap = 200\<rparr>"

text \<open>
  One pass of the body of the \<open>while\<close> loop of \<open>chunk_text\<close>, in the order of the
  source: \<open>chunk_end\<close> is the value of \<open>end\<close> after the word-boundary search, and
  \<open>next_start\<close> the value of \<open>start\<close> after the two statements that move it.
\<close>

definition chunk_end :: "document_service \<Rightarrow> py_str \<Rightarrow> int \<Rightarrow> int" where
  "chunk_end self text start =
     (let e = start + chunk_size self
      in if e < int (length text)
         then (let last_space = rfind text SPACE start e
               in if last_space > start then last_space else e)
         else e)"

definition next_start :: "document_service \<Rightarrow> int \<Rightarrow> int" where
  "next_start self e =
     (let start = e - chunk_overlap self
      in if start \<le> 0 then e else start)"

text \<open>
  The loop itself. Nothing in the source bounds the number of passes, so the loop is a
  partial function: \<open>None\<close> is the run that never leaves the loop.
\<close>

partial_function (option) chunk_loop ::
  "document_service \<Rightarrow> py_str \<Rightarrow> int \<Rightarrow> py_str list \<Rightarrow> py_str list option" where
  "chunk_loop self text start chunks =
     (if start < int (length text)
      then (let e = chunk_end self text start;
                chunk = strip (slice text start e)
            in chunk_loop self text (next_start self e)
                 (if chunk \<noteq> [] then chunks @ [chunk] else chunks))
      else Some chunks)"

definition chunk_text :: "document_service \<Rightarrow> py_str \<Rightarrow> py_str list option" where
  "chunk_text self text = chunk_loop self text 0 []"

text \<open>
  The same loop, keeping for every pass the values of \<open>start\<close> and \<open>end\<close> beside the
  trimmed piece, also for the passes whose piece is empty and is not appended.
\<close>

type_synonym piece = "int \<times> int \<times> py_str"

partial_function (option) scan_loop ::
  "document_service \<Rightarrow> py_str \<Rightarrow> int \<Rightarrow> piece list \<Rightarrow> piece list option" where
  "scan_loop self text start pieces =
     (if start < int (length text)
      then (let e = chunk_end self text start;
                chunk = strip (slice text start e)
            in scan_loop self text (next_start self e) (pieces @ [(start, e, chunk)]))
      else Some pieces)"

definition chunk_scan :: "document_service \<Rightarrow> py_str \<Rightarrow> piece list option" where
  "chunk_scan self text = scan_loop self text 0 []"

definition piece_text :: "piece \<Rightarrow> py_str" where
  "piece_text p = snd (snd p)"

text \<open>The passes whose piece is appended to \<open>chunks\<close>, and the chunks they give.\<close>

definition appended :: "piece list \<Rightarrow> piece list" where
  "appended ps = filter (\<lambda>p. piece_text p \<noteq> []) ps"

definition piece_span :: "piece \<Rightarrow> int \<times> int" where
  "piece_span p = (fst p, fst (snd p))"

definition chunk_spans :: "document_service \<Rightarrow> py_str \<Rightarrow> (int \<times> int) list option" where
  "chunk_spans self text = map_option (\<lambda>ps. map piece_span (appended ps)) (chunk_scan self text)"

text \<open>
  Spans \<open>[start, end)\<close> in the order of the scan leave no gap when each one starts at
  or before the end of the one before it; an index is covered when a span holds it.
\<close>

fun no_gaps :: "(int \<times> int) list \<Rightarrow> bool" where
  "no_gaps (a # b # rest) = (fst b \<le> snd a \<and> no_gaps (b # rest))"
| "no_gaps _ = True"

definition covered :: "(int \<times> int) list \<Rightarrow> int \<Rightarrow> bool" where
  "covered spans k = list_ex (\<lambda>sp. fst sp \<le> k \<and> k < snd sp) spans"

text \<open>What holds of the pieces cut so far when the scan stands at \<open>pos\<close>.\<close>

definition scan_inv :: "document_service \<Rightarrow> py_str \<Rightarrow> int \<Rightarrow> piece list \<Rightarrow> bool" where
  "scan_inv svc doc pos ps \<longleftrightarrow>
     (\<forall>k. 0 \<le> k \<and> k < pos \<longrightarrow> covered (map piece_span ps) k) \<and>
     no_gaps (map piece_span ps) \<and>
     (ps \<noteq> [] \<longrightarrow> pos \<le> snd (piece_span (last ps))) \<and>
     (\<forall>p \<in> set ps. piece_text p = strip (slice doc (fst (piece_span p)) (snd (piece_span p))) \<and>
        int (length (piece_text p)) \<le> chunk_size svc)"

text \<open>
  The values that \<open>start\<close> has at the beginning of the first \<open>n\<close> passes of the loop
  that begins at \<open>pos\<close>, and the piece that the pass beginning at \<open>pos\<close> cuts.
\<close>

fun scan_starts :: "nat \<Rightarrow> document_service \<Rightarrow> py_str \<Rightarrow> int \<Rightarrow> int list" where
  "scan_starts 0 svc doc pos = []"
| "scan_starts (Suc n) svc doc pos =
     (if pos < int (length doc)
      then pos # scan_starts n svc doc (next_start svc (chunk_end svc doc pos))
      else [])"

definition piece_at :: "document_service \<Rightarrow> py_str \<Rightarrow> int \<Rightarrow> piece" where
  "piece_at svc doc pos = (pos, chunk_end svc doc pos, strip (slice doc pos (chunk_end svc doc pos)))"

text \<open>
  Every pass of the scan leaves \<open>start\<close> further on than it found it. A scan whose
  passes all do so makes at most \<open>len(text)\<close> passes, and a scan with a pass that does
  not reaches that pass in fewer than \<open>len(text)\<close> passes, so the first \<open>len(text)\<close>
  passes decide it.
\<close>

definition advances :: "document_service \<Rightarrow> py_str \<Rightarrow> bool" where
  "advances svc doc =
     list_all (\<lambda>p. p < next_start svc (chunk_end svc doc p)) (scan_starts (length doc) svc doc 0)"

text \<open>
  A text with one space, at index 201, followed by 800 characters without a space
  (a long token such as a URL or encoded data).
\<close>

definition long_token_text :: py_str where
  "long_token_text = replicate 201 97 @ [SPACE] @ replicate 800 97"

text \<open>
  A text whose first and last characters are letters, with 1799 newlines between them
  (blank lines, as text extracted from a paged document has).
\<close>

definition gap_text :: py_str where
  "gap_text = 97 # replicate 1799 10 @ [98]"

text \<open>A text of 1001 letters without any space.\<close>

definition unbroken_text :: py_str where
  "unbroken_text = replicate 1001 97"

text \<open>
  A text of 3401 characters: a word of 500 letters, a space, a word of 600 letters,
  2000 spaces and a word of 300 letters.
\<close>

definition words_text :: py_str where
  "words_text =
     replicate 500 97 @ [SPACE] @ replicate 600 99 @ replicate 2000 SPACE @ replicate 300 98"

text \<open>
  A service with chunks of 5 characters that overlap by 3, and the text \<open>aaa a aa\<close>.
\<close>

definition small_service :: document_service where
  "small_service = \<lparr>chunk_size = 5, chunk_overlap = 3\<rparr>"

definition small_text :: py_str where
  "small_text = lit ''aaa a aa''"
section \<open>Ingestion: VectorService and process_document\<close>

text \<open>
  Values of Python dictionaries (metadata, JSON columns, returned results) and the
  dictionaries themselves, as association lists in insertion order.
\<close>

datatype py_val = PyNone | PyInt int | PyFloat real | PyStr py_str | PyList "py_val list"
  | PyDict "(string \<times> py_val) list"

type_synonym py_dict = "(string \<times> py_val) list"

text \<open>\<open>d.get(k, default)\<close> and \<open>d.get(k)\<close>.\<close>

definition get_or :: "py_dict \<Rightarrow> string \<Rightarrow> py_val \<Rightarrow> py_val" where
  "get_or d k dflt = (case map_of d k of None \<Rightarrow> dflt | Some v \<Rightarrow> v)"

definition get :: "py_dict \<Rightarrow> string \<Rightarrow> py_val" where
  "get d k = get_or d k PyNone"

record document =
  doc_id :: nat
  doc_title :: py_str
  doc_file_path :: py_str
  doc_department :: py_str
  doc_content_type :: py_str
  doc_file_size :: nat
  doc_original_filename :: py_str
  doc_uploaded_by :: py_str
  doc_is_active :: bool

record document_chunk =
  chunk_id :: nat
  chunk_document_id :: nat
  chunk_content :: py_str
  chunk_index :: int
  start_char :: int
  end_char :: int
  vector_id :: py_str

text \<open>An entry of the vector collection: id, text, embedding, metadata.\<close>

record vector_entry =
  entry_id :: py_str
  entry_document :: py_str
  entry_embedding :: "real list"
  entry_metadata :: py_dict

record store =
  documents :: "document list"
  document_chunks :: "document_chunk list"
  collection :: "vector_entry list"

definition empty_store :: store where
  "empty_store = \<lparr>documents = [], document_chunks = [], collection = []\<rparr>"

text \<open>An integer primary key: one more than the largest key of the table.\<close>

definition next_id :: "nat list \<Rightarrow> nat" where
  "next_id ids = Suc (fold max ids 0)"

text \<open>
  \<open>VectorService.add_document_chunk\<close>: \<open>fresh\<close> is the value that \<open>uuid.uuid4()\<close>
  gives when no id is supplied.
\<close>

definition add_document_chunk ::
  "vector_entry list \<Rightarrow> py_str \<Rightarrow> real list \<Rightarrow> py_dict \<Rightarrow> py_str option \<Rightarrow> py_str
     \<Rightarrow> vector_entry list \<times> py_str" where
  "add_document_chunk coll chunk embedding metadata given fresh =
     (let cid = (case given of None \<Rightarrow> fresh | Some c \<Rightarrow> c)
      in (coll @ [\<lparr>entry_id = cid, entry_document = chunk, entry_embedding = embedding,
                     entry_metadata = metadata\<rparr>], cid))"

text \<open>
  The arguments of \<open>process_document\<close>, with the results of its first two steps
  (the file is written, its text extracted), which are file-system work.
\<close>

record upload =
  up_file_path :: py_str
  up_text_content :: py_str
  up_file_size :: nat
  up_filename :: py_str
  up_title :: py_str
  up_department :: py_str
  up_content_type :: py_str
  up_uploaded_by :: py_str

text \<open>
  Step 5, the loop over \<open>enumerate(chunks)\<close>. \<open>gen_embedding\<close> is
  \<open>embedding_service.generate_embedding\<close> and \<open>uuid4 i\<close> the identifier drawn for chunk
  \<open>i\<close>. Both are taken to return; an exception of the provider would leave the call
  at that chunk.
\<close>

fun store_chunks ::
  "document_service \<Rightarrow> (py_str \<Rightarrow> real list) \<Rightarrow> (nat \<Rightarrow> py_str) \<Rightarrow> upload \<Rightarrow> document
     \<Rightarrow> (nat \<times> py_str) list \<Rightarrow> store \<Rightarrow> store" where
  "store_chunks self gen_embedding uuid4 up document [] st = st"
| "store_chunks self gen_embedding uuid4 up document ((i, chunk) # rest) st =
     (let embedding = gen_embedding chunk;
          (coll, cid) = add_document_chunk (collection st) chunk embedding
             [(''document_id'', PyInt (int (doc_id document))),
              (''chunk_index'', PyInt (int i)),
              (''title'', PyStr (up_title up)),
              (''department'', PyStr (up_department up)),
              (''content_type'', PyStr (up_content_type up))] None (uuid4 i);
          row = \<lparr>chunk_id = next_id (map chunk_id (document_chunks st)),
                 chunk_document_id = doc_id document,
                 chunk_content = chunk,
                 chunk_index = int i,
                 start_char = int i * (chunk_size self - chunk_overlap self),
                 end_char = (int i + 1) * (chunk_size self - chunk_overlap self),
                 vector_id = cid\<rparr>
      in store_chunks self gen_embedding uuid4 up document rest
           (st\<lparr>collection := coll, document_chunks := document_chunks st @ [row]\<rparr>))"

text \<open>
  Steps 3 to 5 of \<open>process_document\<close>. The result is \<open>None\<close> when \<open>chunk_text\<close>
  does not return.
\<close>

definition process_document ::
  "document_service \<Rightarrow> (py_str \<Rightarrow> real list) \<Rightarrow> (nat \<Rightarrow> py_str) \<Rightarrow> store \<Rightarrow> upload
     \<Rightarrow> (store \<times> document) option" where
  "process_document self gen_embedding uuid4 st up =
     (let document = \<lparr>doc_id = next_id (map doc_id (documents st)),
                       doc_title = up_title up,
                       doc_file_path = up_file_path up,
                       doc_department = up_department up,
                       doc_content_type = up_content_type up,
                       doc_file_size = up_file_size up,
                       doc_original_filename = up_filename up,
                       doc_uploaded_by = up_uploaded_by up,
                       doc_is_active = True\<rparr>;
          st1 = st\<lparr>documents := documents st @ [document]\<rparr>
      in case chunk_text self (up_text_content up) of
           None \<Rightarrow> None
         | Some chunks \<Rightarrow>
             Some (store_chunks self gen_embedding uuid4 up document (enumerate 0 chunks) st1, document))"

text \<open>The character span that a chunk row records.\<close>

definition row_span :: "document_chunk \<Rightarrow> int \<times> int" where
  "row_span r = (start_char r, end_char r)"

section \<open>ChatService\<close>

record user =
  user_id :: nat
  user_name :: py_str
  user_email :: py_str
  user_role :: py_str

record conversation =
  conv_id :: nat
  conv_user_id :: nat
  conv_session_id :: py_str
  conv_title :: py_str
  conv_is_active :: bool
  conv_last_message_at :: "nat option"

record message =
  msg_id :: nat
  msg_conversation_id :: nat
  msg_content :: py_str
  msg_is_user_message :: bool
  msg_timestamp :: nat
  msg_source_documents :: py_val
  msg_confidence_score :: "real option"

text \<open>The three tables, each in insertion order.\<close>

record database =
  users :: "user list"
  conversations :: "conversation list"
  messages :: "message list"

definition empty_database :: database where
  "empty_database = \<lparr>users = [], conversations = [], messages = []\<rparr>"

text \<open>The messages of the prompt memory (\<open>self.memory.chat_memory.messages\<close>).\<close>

datatype role = Human | AI

type_synonym memory = "(role \<times> py_str) list"

text \<open>A LangChain document, as the retriever builds it.\<close>

record lc_document =
  page_content :: py_str
  metadata :: py_dict

text \<open>
  What a call of \<open>generate_response\<close> takes from outside the program: the times at
  which its two messages are stored, the value \<open>uuid.uuid4()\<close> would give, and the
  retrieval chain, which either raises (\<open>Inl\<close>, with the text of the exception) or
  returns the answer and its source documents.
\<close>

record env =
  env_now_user :: nat
  env_now_ai :: nat
  env_uuid4 :: py_str
  env_chain :: "memory \<Rightarrow> py_str \<Rightarrow> py_str + (py_str \<times> lc_document list)"

definition NEW_CHAT :: py_str where
  "NEW_CHAT = lit ''New Chat''"

text \<open>
  The text of the exception that \<open>db.commit()\<close> raises when a new conversation repeats
  a \<open>session_id\<close> (the column is \<open>unique\<close>); the wording is the driver's.
\<close>

definition integrity_error :: py_str where
  "integrity_error = lit ''UNIQUE constraint failed: conversations.session_id''"

text \<open>\<open>user_email.split("@")[0]\<close>\<close>

definition email_prefix :: "py_str \<Rightarrow> py_str" where
  "email_prefix email = takeWhile (\<lambda>c. c \<noteq> 64) email"

text \<open>
  An optional string argument as the tests \<open>if session_id\<close> and \<open>session_id or ...\<close>
  see it: \<open>None\<close> and the empty string are both false, so both are the empty list here.
\<close>

definition given :: "py_str option \<Rightarrow> py_str" where
  "given s = (case s of None \<Rightarrow> [] | Some v \<Rightarrow> v)"

text \<open>The first block of \<open>get_or_create_conversation\<close>: get or create the user.\<close>

definition get_or_create_user :: "database \<Rightarrow> py_str \<Rightarrow> database \<times> user" where
  "get_or_create_user db email =
     (case find (\<lambda>u. user_email u = email) (users db) of
        Some u \<Rightarrow> (db, u)
      | None \<Rightarrow>
          (let u = \<lparr>user_id = next_id (map user_id (users db)),
                    user_name = email_prefix email,
                    user_email = email,
                    user_role = lit ''employee''\<rparr>
           in (db\<lparr>users := users db @ [u]\<rparr>, u)))"

text \<open>
  The whole function. The second block gets or creates the conversation; the commit of
  a new conversation raises when its \<open>session_id\<close> is already in the table.
\<close>

definition get_or_create_conversation ::
  "database \<Rightarrow> py_str \<Rightarrow> py_str option \<Rightarrow> py_str
     \<Rightarrow> database \<times> (py_str + conversation \<times> user)" where
  "get_or_create_conversation db email session_id fresh =
     (let (db1, usr) = get_or_create_user db email;
          found =
            (if given session_id \<noteq> []
             then find (\<lambda>c. conv_session_id c = given session_id \<and> conv_user_id c = user_id usr \<and>
                                conv_is_active c) (conversations db1)
             else None)
      in case found of
           Some c \<Rightarrow> (db1, Inr (c, usr))
         | None \<Rightarrow>
             (let c = \<lparr>conv_id = next_id (map conv_id (conversations db1)),
                       conv_user_id = user_id usr,
                       conv_session_id = (if given session_id \<noteq> [] then given session_id else fresh),
                       conv_title = NEW_CHAT,
                       conv_is_active = True,
                       conv_last_message_at = None\<rparr>
              in if conv_session_id c \<in> set (map conv_session_id (conversations db1))
                 then (db1, Inl integrity_error)
                 else (db1\<lparr>conversations := conversations db1 @ [c]\<rparr>, Inr (c, usr))))"

text \<open>An assignment to an attribute of a conversation object reaches the row with its key.\<close>

definition update_conversation ::
  "database \<Rightarrow> nat \<Rightarrow> (conversation \<Rightarrow> conversation) \<Rightarrow> database" where
  "update_conversation db cid f =
     db\<lparr>conversations := map (\<lambda>c. if conv_id c = cid then f c else c) (conversations db)\<rparr>"

definition save_message ::
  "database \<Rightarrow> conversation \<Rightarrow> py_str \<Rightarrow> bool \<Rightarrow> py_val \<Rightarrow> real option \<Rightarrow> nat
     \<Rightarrow> database \<times> message" where
  "save_message db conv content is_user source_documents confidence_score now =
     (let m = \<lparr>msg_id = next_id (map msg_id (messages db)),
               msg_conversation_id = conv_id conv,
               msg_content = content,
               msg_is_user_message = is_user,
               msg_timestamp = now,
               msg_source_documents = source_documents,
               msg_confidence_score = confidence_score\<rparr>;
          db1 = db\<lparr>messages := messages db @ [m]\<rparr>
      in (update_conversation db1 (conv_id conv) (\<lambda>c. c\<lparr>conv_last_message_at := Some now\<rparr>), m))"

text \<open>
  The query of \<open>load_conversation_history\<close>: the rows of the conversation, ordered by
  \<open>timestamp\<close> ascending (rows of equal time keep insertion order), cut by \<open>limit(10)\<close>.
\<close>

definition history_query :: "database \<Rightarrow> conversation \<Rightarrow> message list" where
  "history_query db conv =
     take 10 (sort_key msg_timestamp
       (filter (\<lambda>m. msg_conversation_id m = conv_id conv) (messages db)))"

text \<open>
  \<open>load_conversation_history\<close>: the memory is cleared, then filled from the rows of the
  query in their order. The value is the content of the memory afterwards.
\<close>

definition load_conversation_history :: "database \<Rightarrow> conversation \<Rightarrow> memory" where
  "load_conversation_history db conv =
     map (\<lambda>m. (if msg_is_user_message m then Human else AI, msg_content m)) (history_query db conv)"

text \<open>The entry of \<open>source_doc_info\<close> for one source document.\<close>

definition source_info :: "lc_document \<Rightarrow> py_dict" where
  "source_info doc =
     [(''source'', get_or (metadata doc) ''source'' (PyStr (lit ''Unknown''))),
      (''department'', get_or (metadata doc) ''department'' (PyStr [])),
      (''content_type'', get_or (metadata doc) ''content_type'' (PyStr [])),
      (''document_id'', get (metadata doc) ''document_id''),
      (''relevance_score'', get_or (metadata doc) ''relevance_score'' (PyInt 0)),
      (''chunk_content'',
         PyStr (if length (page_content doc) > 200
                then take 200 (page_content doc) @ lit ''...''
                else page_content doc))]"

text \<open>
  The number held by a value; \<open>sum\<close> raises \<open>TypeError\<close> on anything else.
\<close>

definition type_error :: py_str where
  "type_error = lit ''unsupported operand type(s) for +''"

fun number :: "py_val \<Rightarrow> py_str + real" where
  "number (PyInt i) = Inr (real_of_int i)"
| "number (PyFloat r) = Inr r"
| "number _ = Inl type_error"

fun sum_scores :: "py_dict list \<Rightarrow> py_str + real" where
  "sum_scores [] = Inr 0"
| "sum_scores (d # ds) =
     (case number (get_or d ''relevance_score'' (PyInt 0)) of
        Inl e \<Rightarrow> Inl e
      | Inr x \<Rightarrow> (case sum_scores ds of Inl e \<Rightarrow> Inl e | Inr s \<Rightarrow> Inr (x + s)))"

text \<open>Lines 250 to 253: the confidence score, \<open>None\<close> when there is no source.\<close>

definition confidence :: "py_dict list \<Rightarrow> py_str + real option" where
  "confidence source_doc_info =
     (if source_doc_info \<noteq> []
      then (case sum_scores source_doc_info of
              Inl e \<Rightarrow> Inl e
            | Inr s \<Rightarrow>
                (let avg_relevance = s / real (length source_doc_info)
                 in Inr (Some (min avg_relevance 1))))
      else Inr None)"

definition optional_float :: "real option \<Rightarrow> py_val" where
  "optional_float x = (case x of None \<Rightarrow> PyNone | Some r \<Rightarrow> PyFloat r)"

definition optional_str :: "py_str option \<Rightarrow> py_val" where
  "optional_str x = (case x of None \<Rightarrow> PyNone | Some s \<Rightarrow> PyStr s)"

text \<open>Line 268: the title made from the user's message.\<close>

definition title_from :: "py_str \<Rightarrow> py_str" where
  "title_from user_message =
     take 50 user_message @ (if length user_message > 50 then lit ''...'' else [])"

text \<open>The dictionary that the \<open>except\<close> branch returns.\<close>

definition error_result :: "py_str \<Rightarrow> py_str option \<Rightarrow> py_dict" where
  "error_result e session_id =
     [(''response'',
         PyStr (lit ''I apologize, but I encountered an error while processing your request: '' @ e)),
      (''session_id'', optional_str session_id),
      (''message_id'', PyNone),
      (''sources'', PyList []),
      (''confidence_score'', PyNone),
      (''error'', PyStr e)]"

text \<open>
  \<open>generate_response\<close>: the body of the \<open>try\<close> in the order of the source; every
  exception it can raise ends in \<open>error_result\<close>, with the database as the commits made
  so far have left it.
\<close>

definition generate_response ::
  "env \<Rightarrow> database \<Rightarrow> py_str \<Rightarrow> py_str \<Rightarrow> py_str option \<Rightarrow> database \<times> py_dict" where
  "generate_response ev db email user_message session_id =
     (case get_or_create_conversation db email session_id (env_uuid4 ev) of
        (db1, Inl e) \<Rightarrow> (db1, error_result e session_id)
      | (db1, Inr (conv, usr)) \<Rightarrow>
          (let mem = load_conversation_history db1 conv;
               (db2, user_msg) = save_message db1 conv user_message True PyNone None (env_now_user ev)
           in case env_chain ev mem user_message of
                Inl e \<Rightarrow> (db2, error_result e session_id)
              | Inr (ai_response, source_docs) \<Rightarrow>
                  (let source_doc_info = map source_info source_docs
                   in case confidence source_doc_info of
                        Inl e \<Rightarrow> (db2, error_result e session_id)
                      | Inr confidence_score \<Rightarrow>
                          (let (db3, ai_msg) = save_message db2 conv ai_response False
                                 (PyList (map PyDict source_doc_info)) confidence_score (env_now_ai ev);
                               assign = (conv_title conv = NEW_CHAT \<and> length user_message > 10);
                               new_title = (if assign then title_from user_message else conv_title conv);
                               db4 = (if assign
                                      then update_conversation db3 (conv_id conv)
                                             (\<lambda>c. c\<lparr>conv_title := new_title\<rparr>)
                                      else db3)
                           in (db4,
                               [(''response'', PyStr ai_response),
                                (''session_id'', PyStr (conv_session_id conv)),
                                (''message_id'', PyInt (int (msg_id ai_msg))),
                                (''sources'', PyList (map PyDict source_doc_info)),
                                (''confidence_score'', optional_float confidence_score),
                                (''conversation_title'', PyStr new_title)])))))"

text \<open>The stored history of a conversation, as \<open>get_conversation_history\<close> reads it.\<close>

definition stored_history :: "database \<Rightarrow> nat \<Rightarrow> message list" where
  "stored_history db cid =
     sort_key msg_timestamp (filter (\<lambda>m. msg_conversation_id m = cid) (messages db))"

text \<open>The primary keys of the conversations are distinct.\<close>

definition db_ok :: "database \<Rightarrow> bool" where
  "db_ok db = distinct (map conv_id (conversations db))"

text \<open>A sequence of \<open>generate_response\<close> calls, one after the other.\<close>

record call =
  call_env :: env
  call_email :: py_str
  call_message :: py_str
  call_session_id :: "py_str option"

fun run_calls :: "database \<Rightarrow> call list \<Rightarrow> database" where
  "run_calls db [] = db"
| "run_calls db (c # cs) =
     run_calls (fst (generate_response (call_env c) db (call_email c) (call_message c)
                       (call_session_id c))) cs"

text \<open>The title of the conversation with a given key.\<close>

definition title_of :: "database \<Rightarrow> nat \<Rightarrow> py_str option" where
  "title_of db cid = map_option conv_title (find (\<lambda>c. conv_id c = cid) (conversations db))"

text \<open>
  A first call: the user and the conversation that it creates in an empty database when
  no \<open>session_id\<close> is given and \<open>uuid4\<close> gives \<open>uuid-1\<close>.
\<close>

definition ann :: user where
  "ann = \<lparr>user_id = 1, user_name = lit ''ann'', user_email = lit ''ann@example.com'',
           user_role = lit ''employee''\<rparr>"

definition fresh_conversation :: conversation where
  "fresh_conversation =
     \<lparr>conv_id = 1, conv_user_id = 1, conv_session_id = lit ''uuid-1'', conv_title = NEW_CHAT,
      conv_is_active = True, conv_last_message_at = None\<rparr>"

definition first_database :: database where
  "first_database = \<lparr>users = [ann], conversations = [fresh_conversation], messages = []\<rparr>"

text \<open>The same first call with the \<open>session_id\<close> \<open>s1\<close> supplied by the caller.\<close>

definition supplied_conversation :: conversation where
  "supplied_conversation =
     \<lparr>conv_id = 1, conv_user_id = 1, conv_session_id = lit ''s1'', conv_title = NEW_CHAT,
      conv_is_active = True, conv_last_message_at = None\<rparr>"

definition supplied_database :: database where
  "supplied_database = \<lparr>users = [ann], conversations = [supplied_conversation], messages = []\<rparr>"

text \<open>
  A conversation of the same user with six exchanges, stored at the times 1 to 12, and
  the database that holds it.
\<close>

definition six_exchanges :: "message list" where
  "six_exchanges =
     map (\<lambda>(i, u, c). \<lparr>msg_id = i, msg_conversation_id = 1, msg_content = lit c,
                          msg_is_user_message = u, msg_timestamp = i,
                          msg_source_documents = PyNone, msg_confidence_score = None\<rparr>)
       [(1, True, ''q1''), (2, False, ''a1''), (3, True, ''q2''), (4, False, ''a2''),
        (5, True, ''q3''), (6, False, ''a3''), (7, True, ''q4''), (8, False, ''a4''),
        (9, True, ''q5''), (10, False, ''a5''), (11, True, ''q6''), (12, False, ''a6'')]"

definition long_conversation :: conversation where
  "long_conversation =
     \<lparr>conv_id = 1, conv_user_id = 1, conv_session_id = lit ''s1'', conv_title = lit ''A long chat'',
      conv_is_active = True, conv_last_message_at = Some 12\<rparr>"

definition long_database :: database where
  "long_database =
     \<lparr>users = [ann],
      conversations = [long_conversation],
      messages = six_exchanges\<rparr>"

text \<open>Two source documents as the retriever builds them, with relevance 0.9 and 0.7.\<close>

definition two_sources :: "lc_document list" where
  "two_sources =
     [\<lparr>page_content = lit ''Employees may work from home two days per week.'',
       metadata = [(''source'', PyStr (lit ''Remote Work Policy'')), (''department'', PyStr (lit ''HR'')),
                   (''content_type'', PyStr (lit ''policy'')), (''document_id'', PyInt 1),
                   (''chunk_index'', PyInt 0), (''raw_distance'', PyFloat (1 / 10)),
                   (''relevance_score'', PyFloat (9 / 10))]\<rparr>,
      \<lparr>page_content = lit ''Requests are approved by the team lead.'',
       metadata = [(''source'', PyStr (lit ''Remote Work Policy'')), (''department'', PyStr (lit ''HR'')),
                   (''content_type'', PyStr (lit ''policy'')), (''document_id'', PyInt 1),
                   (''chunk_index'', PyInt 1), (''raw_distance'', PyFloat (3 / 10)),
                   (''relevance_score'', PyFloat (7 / 10))]\<rparr>]"

text \<open>
  An environment whose chain raises, and one whose chain answers with the source
  documents given.
\<close>

definition failing_env :: env where
  "failing_env =
     \<lparr>env_now_user = 1, env_now_ai = 2, env_uuid4 = lit ''uuid-1'',
      env_chain = (\<lambda>mem q. Inl (lit ''timeout''))\<rparr>"

definition answering_env :: "lc_document list \<Rightarrow> env" where
  "answering_env docs =
     \<lparr>env_now_user = 1, env_now_ai = 2, env_uuid4 = lit ''uuid-1'',
      env_chain = (\<lambda>mem q. Inr (lit ''Two days per week.'', docs))\<rparr>"

definition remote_question :: py_str where
  "remote_question = lit ''What is our remote work policy and how many days are allowed?''"

section \<open>EmbeddingService: similarity\<close>

text \<open>
  A numpy \<open>float64\<close> (IEEE 754 binary64, which is also the Python \<open>float\<close>): a finite
  number given by its sign (\<open>True\<close> for minus) and its magnitude, so that \<open>-0.0\<close> is a
  value, an infinity with its sign, or NaN.
\<close>

datatype float64 = Finite bool real | Infinity bool | NaN

text \<open>
  An arithmetic operation gives the exact result rounded to the nearest \<open>float64\<close>,
  ties to the even significand. \<open>rne\<close> rounds a real to the nearest integer in that
  way. \<open>round_mag\<close> rounds a positive magnitude: a \<open>float64\<close> has 53 significant bits,
  so the spacing of the values near \<open>x\<close> is \<open>2 ^ (e - 52)\<close> for the exponent \<open>e\<close>
  of \<open>x\<close>; the exponent is at least \<open>-1022\<close>, so that below \<open>2 ^ -1022\<close> the spacing
  stays \<open>2 ^ -1074\<close> and a small result loses bits or becomes zero. \<open>round64\<close> adds the
  sign and the overflow: a rounded magnitude from \<open>2 ^ 1024\<close> on is an infinity.
\<close>

definition rne :: "real \<Rightarrow> int" where
  "rne y =
     (let f = \<lfloor>y\<rfloor>
      in if y - of_int f < 1 / 2 then f
         else if 1 / 2 < y - of_int f then f + 1
         else if even f then f else f + 1)"

definition round_mag :: "real \<Rightarrow> real" where
  "round_mag x =
     (let e = max \<lfloor>log 2 x\<rfloor> (- 1022);
          ulp = 2 powi (e - 52)
      in of_int (rne (x / ulp)) * ulp)"

definition round64 :: "bool \<Rightarrow> real \<Rightarrow> float64" where
  "round64 s x =
     (if x = 0 then Finite s 0
      else (let r = round_mag x in if 2 ^ 1024 \<le> r then Infinity s else Finite s r))"









text \<open>
  A zero (\<open>0.0\<close> or \<open>-0.0\<close>), a finite number, a vector of zeros, and a value that is a
  zero or NaN.
\<close>

fun is_zero :: "float64 \<Rightarrow> bool" where
  "is_zero (Finite s x) = (x = 0)"
| "is_zero _ = False"



definition zero_or_nan :: "float64 \<Rightarrow> bool" where
  "zero_or_nan v \<longleftrightarrow> v = NaN \<or> is_zero v"




section \<open>Retrieval: search_documents and the chat retriever\<close>


































section \<open>Facts about the string operations\<close>

lemma clamp_index_nat [simp]: "clamp_index n (int k) = min k n"
  by (simp add: clamp_index_def)

lemma clamp_index_le: "clamp_index n i \<le> n"
  by (auto simp: clamp_index_def)

lemma rfind_eqI:
  assumes "lo \<le> k" "k < hi" "hi \<le> length s" "s ! k = c"
    and "\<And>m. k < m \<Longrightarrow> m < hi \<Longrightarrow> s ! m \<noteq> c"
  shows "rfind s c (int lo) (int hi) = int k"
proof -
  have split: "[lo..<hi] = [lo..<k] @ k # [Suc k..<hi]"
    using assms(1,2) by (metis le_add_diff_inverse less_imp_le_nat upt_add_eq_append upt_conv_Cons)
  have none: "filter (\<lambda>m. s ! m = c) (rev [Suc k..<hi]) = []"
    using assms(5) by (auto simp: filter_empty_conv)
  have "filter (\<lambda>m. s ! m = c) (rev [lo..<hi]) = k # filter (\<lambda>m. s ! m = c) (rev [lo..<k])"
    unfolding split using none assms(4) by simp
  moreover have "min lo (length s) = lo" "min hi (length s) = hi"
    using assms(1,2,3) by simp_all
  ultimately show ?thesis
    by (simp add: rfind_def)
qed

lemma rfind_none:
  assumes "c \<notin> set s"
  shows "rfind s c i j = - 1"
proof -
  have "filter (\<lambda>k. s ! k = c) (rev [clamp_index (length s) i..<clamp_index (length s) j]) = []"
    using assms clamp_index_le [of "length s" j]
    by (auto simp: filter_empty_conv dest!: nth_mem [of _ s])
  then show ?thesis
    by (simp add: rfind_def)
qed

lemma strip_no_space:
  assumes "s \<noteq> []" "\<not> isspace (hd s)" "\<not> isspace (last s)"
  shows "strip s = s"
proof -
  have "dropWhile isspace s = s"
    using assms(1,2) by (cases s) simp_all
  moreover have "dropWhile isspace (rev s) = rev s"
    using assms(1,3) by (cases "rev s") (simp_all add: last_rev [symmetric] hd_rev)
  ultimately show ?thesis
    by (simp add: strip_def)
qed

lemma dropWhile_replicate_append:
  "P x \<Longrightarrow> dropWhile P (replicate n x @ ys) = dropWhile P ys"
  by (induction n) simp_all

lemma isspace_values: "isspace 10" "\<not> isspace 97" "\<not> isspace 98"
  by (simp_all add: isspace_def)

lemma isspace_more: "isspace 32" "\<not> isspace 99"
  by (simp_all add: isspace_def)

section \<open>The two loops agree\<close>

lemma appended_snoc:
  "map piece_text (appended (ps @ [(s, e, c)])) =
     (if c \<noteq> [] then map piece_text (appended ps) @ [c] else map piece_text (appended ps))"
  by (simp add: appended_def piece_text_def)

lemma scan_to_chunk:
  assumes "scan_loop svc doc pos ps = Some out"
  shows "chunk_loop svc doc pos (map piece_text (appended ps)) = Some (map piece_text (appended out))"
proof (rule scan_loop.raw_induct
    [where P = "\<lambda>svc doc pos ps out.
        chunk_loop svc doc pos (map piece_text (appended ps)) = Some (map piece_text (appended out))",
      OF _ assms], goal_cases)
  case (1 loop svc doc pos ps out)
  show ?case
  proof (cases "pos < int (length doc)")
    case True
    with 1(2) have "loop svc doc (next_start svc (chunk_end svc doc pos))
        (ps @ [(pos, chunk_end svc doc pos, strip (slice doc pos (chunk_end svc doc pos)))]) = Some out"
      by (simp add: Let_def)
    then have "chunk_loop svc doc (next_start svc (chunk_end svc doc pos))
        (map piece_text (appended (ps @ [(pos, chunk_end svc doc pos, strip (slice doc pos (chunk_end svc doc pos)))])))
        = Some (map piece_text (appended out))"
      by (rule 1(1))
    then show ?thesis
      using True by (subst chunk_loop.simps) (simp add: appended_snoc Let_def)
  next
    case False
    with 1(2) have "out = ps" by simp
    then show ?thesis
      using False by (subst chunk_loop.simps) simp
  qed
qed

lemma chunk_to_scan:
  assumes "chunk_loop svc doc pos cs = Some out"
  shows "\<exists>out'. scan_loop svc doc pos ps = Some out'"
proof -
  have "\<forall>ps. \<exists>out'. scan_loop svc doc pos ps = Some out'"
  proof (rule chunk_loop.raw_induct
      [where P = "\<lambda>svc doc pos cs out. \<forall>ps. \<exists>out'. scan_loop svc doc pos ps = Some out'",
        OF _ assms], goal_cases)
    case (1 loop svc doc pos cs out)
    show ?case
    proof (cases "pos < int (length doc)")
      case True
      with 1(2) obtain cs' where "loop svc doc (next_start svc (chunk_end svc doc pos)) cs' = Some out"
        by (simp add: Let_def)
      then have "\<forall>ps. \<exists>out'. scan_loop svc doc (next_start svc (chunk_end svc doc pos)) ps = Some out'"
        by (rule 1(1))
      then show ?thesis
        using True by (subst scan_loop.simps) (simp add: Let_def)
    next
      case False
      then show ?thesis
        by (subst scan_loop.simps) simp
    qed
  qed
  then show ?thesis by blast
qed

lemma chunk_text_scan:
  "chunk_text svc doc = map_option (\<lambda>ps. map piece_text (appended ps)) (chunk_scan svc doc)"
proof (cases "chunk_scan svc doc")
  case None
  have "chunk_text svc doc = None"
  proof (cases "chunk_text svc doc")
    case (Some out)
    then obtain out' where "scan_loop svc doc 0 [] = Some out'"
      unfolding chunk_text_def using chunk_to_scan by blast
    with None show ?thesis by (simp add: chunk_scan_def)
  qed simp
  with None show ?thesis by simp
next
  case (Some ps)
  then have "chunk_loop svc doc 0 (map piece_text (appended [])) = Some (map piece_text (appended ps))"
    unfolding chunk_scan_def by (rule scan_to_chunk)
  with Some show ?thesis
    by (simp add: chunk_text_def appended_def)
qed

lemma rfind_less: "0 \<le> j \<Longrightarrow> rfind s c i j < j"
proof -
  assume j: "0 \<le> j"
  let ?hi = "clamp_index (length s) j"
  let ?xs = "filter (\<lambda>k. s ! k = c) (rev [clamp_index (length s) i..<?hi])"
  show ?thesis
  proof (cases ?xs)
    case Nil
    then show ?thesis using j by (simp add: rfind_def)
  next
    case (Cons k ks)
    then have "k \<in> set ?xs" by simp
    then have "k < ?hi" by simp
    moreover have "int ?hi \<le> j" using j by (simp add: clamp_index_def)
    ultimately show ?thesis using Cons by (simp add: rfind_def)
  qed
qed

lemma chunk_end_bounds:
  assumes "0 \<le> pos" "0 < chunk_size svc"
  shows "pos < chunk_end svc doc pos" "chunk_end svc doc pos \<le> pos + chunk_size svc"
  using assms rfind_less [of "pos + chunk_size svc" doc SPACE pos]
  by (auto simp: chunk_end_def Let_def)

lemma next_start_le: "0 \<le> chunk_overlap svc \<Longrightarrow> next_start svc e \<le> e"
  by (simp add: next_start_def Let_def)

lemma next_start_pos: "0 < e \<Longrightarrow> 0 < next_start svc e"
  by (simp add: next_start_def Let_def)

lemma length_strip_le: "length (strip s) \<le> length s"
  unfolding strip_def
  by (metis length_dropWhile_le length_rev le_trans)

lemma length_slice_le: "0 \<le> i \<Longrightarrow> i \<le> j \<Longrightarrow> int (length (slice xs i j)) \<le> j - i"
  by (simp add: slice_def Let_def clamp_index_def)

section \<open>What the scan maintains\<close>

lemma no_gaps_snoc:
  "no_gaps (xs @ [b]) = (no_gaps xs \<and> (xs = [] \<or> fst b \<le> snd (last xs)))"
  by (induction xs rule: no_gaps.induct) auto

lemma covered_snoc: "covered (xs @ [sp]) k = (covered xs k \<or> fst sp \<le> k \<and> k < snd sp)"
  by (auto simp: covered_def list_ex_iff)

lemma scan_inv_step:
  assumes "0 < chunk_size svc" "0 \<le> chunk_overlap svc" "0 \<le> pos" "scan_inv svc doc pos ps"
  defines "e \<equiv> chunk_end svc doc pos"
  shows "scan_inv svc doc (next_start svc e) (ps @ [(pos, e, strip (slice doc pos e))])"
proof -
  have e: "pos < e" "e \<le> pos + chunk_size svc"
    unfolding e_def using chunk_end_bounds [of pos svc doc] assms(1,3) by simp_all
  have n: "next_start svc e \<le> e"
    using assms(2) by (rule next_start_le)
  have len: "int (length (strip (slice doc pos e))) \<le> chunk_size svc"
    using length_strip_le [of "slice doc pos e"] length_slice_le [of pos e doc] e assms(3)
    by linarith
  have cov: "covered (map piece_span (ps @ [(pos, e, strip (slice doc pos e))])) k"
    if "0 \<le> k" "k < next_start svc e" for k
  proof (cases "k < pos")
    case True
    with that assms(4) show ?thesis
      by (simp add: scan_inv_def covered_snoc)
  next
    case False
    with that n show ?thesis
      by (simp add: covered_snoc piece_span_def)
  qed
  have gaps: "no_gaps (map piece_span (ps @ [(pos, e, strip (slice doc pos e))]))"
  proof (cases "ps = []")
    case True
    then show ?thesis by simp
  next
    case False
    then have "pos \<le> snd (last (map piece_span ps))"
      using assms(4) by (simp add: scan_inv_def last_map)
    then show ?thesis
      using assms(4) by (simp add: scan_inv_def no_gaps_snoc piece_span_def)
  qed
  show ?thesis
    unfolding scan_inv_def
  proof (intro conjI allI impI ballI)
    fix k assume "0 \<le> k \<and> k < next_start svc e"
    then show "covered (map piece_span (ps @ [(pos, e, strip (slice doc pos e))])) k"
      using cov by blast
  next
    show "no_gaps (map piece_span (ps @ [(pos, e, strip (slice doc pos e))]))" by (rule gaps)
  next
    show "next_start svc e \<le> snd (piece_span (last (ps @ [(pos, e, strip (slice doc pos e))])))"
      using n by (simp add: piece_span_def)
  next
    fix p assume "p \<in> set (ps @ [(pos, e, strip (slice doc pos e))])"
    then show "piece_text p = strip (slice doc (fst (piece_span p)) (snd (piece_span p)))"
      using assms(4) by (auto simp: scan_inv_def piece_span_def piece_text_def)
  next
    fix p assume "p \<in> set (ps @ [(pos, e, strip (slice doc pos e))])"
    then show "int (length (piece_text p)) \<le> chunk_size svc"
      using assms(4) len by (auto simp: scan_inv_def piece_text_def)
  qed
qed

lemma scan_inv_final:
  assumes "scan_loop svc doc pos ps = Some out"
    and "0 < chunk_size svc" "0 \<le> chunk_overlap svc" "0 \<le> pos" "scan_inv svc doc pos ps"
  shows "scan_inv svc doc (int (length doc)) out"
proof -
  have "0 < chunk_size svc \<and> 0 \<le> chunk_overlap svc \<and> 0 \<le> pos \<and> scan_inv svc doc pos ps
        \<longrightarrow> scan_inv svc doc (int (length doc)) out"
  proof (rule scan_loop.raw_induct
      [where P = "\<lambda>svc doc pos ps out.
          0 < chunk_size svc \<and> 0 \<le> chunk_overlap svc \<and> 0 \<le> pos \<and> scan_inv svc doc pos ps
          \<longrightarrow> scan_inv svc doc (int (length doc)) out",
        OF _ assms(1)], goal_cases)
    case (1 loop svc doc pos ps out)
    show ?case
    proof (intro impI, elim conjE)
      assume h: "0 < chunk_size svc" "0 \<le> chunk_overlap svc" "0 \<le> pos" "scan_inv svc doc pos ps"
      show "scan_inv svc doc (int (length doc)) out"
      proof (cases "pos < int (length doc)")
        case True
        let ?e = "chunk_end svc doc pos"
        from True 1(2) have run: "loop svc doc (next_start svc ?e)
            (ps @ [(pos, ?e, strip (slice doc pos ?e))]) = Some out"
          by (simp add: Let_def)
        have "0 < ?e" using chunk_end_bounds(1) [of pos svc doc] h(1,3) by linarith
        then have "0 \<le> next_start svc ?e" using next_start_pos [of ?e svc] by simp
        moreover have "scan_inv svc doc (next_start svc ?e) (ps @ [(pos, ?e, strip (slice doc pos ?e))])"
          using h by (rule scan_inv_step)
        ultimately show ?thesis
          using 1(1) [OF run] h(1,2) by blast
      next
        case False
        with 1(2) have "out = ps" by simp
        with h(4) False show ?thesis
          by (auto simp: scan_inv_def)
      qed
    qed
  qed
  with assms(2-5) show ?thesis by blast
qed

section \<open>Coverage and size of the chunks\<close>

lemma scan_inv_start: "scan_inv svc doc 0 []"
  by (simp add: scan_inv_def covered_def)

lemma scan_loop_step:
  "pos < int (length doc) \<Longrightarrow>
   scan_loop svc doc pos ps =
     scan_loop svc doc (next_start svc (chunk_end svc doc pos))
       (ps @ [(pos, chunk_end svc doc pos, strip (slice doc pos (chunk_end svc doc pos)))])"
  by (subst scan_loop.simps) (simp add: Let_def)

lemma scan_loop_exit:
  "\<not> pos < int (length doc) \<Longrightarrow> scan_loop svc doc pos ps = Some ps"
  by (subst scan_loop.simps) simp

lemma scan_loop_starts:
  assumes "list_all (\<lambda>p. p < next_start svc (chunk_end svc doc p)) (scan_starts n svc doc pos)"
    and "0 \<le> pos" "int (length doc) - pos \<le> int n"
  shows "scan_loop svc doc pos ps = Some (ps @ map (piece_at svc doc) (scan_starts n svc doc pos))"
  using assms
proof (induction n arbitrary: pos ps)
  case 0
  then show ?case
    by (simp add: scan_loop_exit)
next
  case (Suc n)
  show ?case
  proof (cases "pos < int (length doc)")
    case False
    then show ?thesis
      by (simp add: scan_loop_exit)
  next
    case True
    let ?next = "next_start svc (chunk_end svc doc pos)"
    from Suc.prems(1) True have further: "pos < ?next"
      and rest: "list_all (\<lambda>p. p < next_start svc (chunk_end svc doc p)) (scan_starts n svc doc ?next)"
      by simp_all
    have "0 \<le> ?next" "int (length doc) - ?next \<le> int n"
      using further Suc.prems(2,3) by linarith+
    with rest have "scan_loop svc doc ?next (ps @ [piece_at svc doc pos]) =
        Some ((ps @ [piece_at svc doc pos]) @ map (piece_at svc doc) (scan_starts n svc doc ?next))"
      by (rule Suc.IH)
    then show ?thesis
      using True by (simp add: scan_loop_step piece_at_def)
  qed
qed

lemma chunk_scan_advances:
  assumes "advances svc doc"
  shows "chunk_scan svc doc = Some (map (piece_at svc doc) (scan_starts (length doc) svc doc 0))"
  using scan_loop_starts [of svc doc "length doc" 0 "[]"] assms
  by (simp add: advances_def chunk_scan_def)

lemma scan_starts_step:
  "0 < n \<Longrightarrow> pos < int (length doc) \<Longrightarrow>
   scan_starts n svc doc pos = pos # scan_starts (n - 1) svc doc (next_start svc (chunk_end svc doc pos))"
  by (cases n) simp_all

lemma scan_starts_exit: "\<not> pos < int (length doc) \<Longrightarrow> scan_starts n svc doc pos = []"
  by (cases n) simp_all

section \<open>A scan that returns moves forward at every pass\<close>

lemma rfind_found:
  assumes "0 \<le> rfind s c (int lo) (int hi)" "hi \<le> length s"
  shows "\<exists>k. rfind s c (int lo) (int hi) = int k \<and> lo \<le> k \<and> k < hi \<and> s ! k = c \<and>
           (\<forall>m. k < m \<and> m < hi \<longrightarrow> s ! m \<noteq> c)"
proof -
  let ?P = "\<lambda>k. s ! k = c"
  have hi: "min hi (length s) = hi"
    using assms(2) by simp
  let ?lo = "min lo (length s)"
  obtain k ks where found: "filter ?P (rev [?lo..<hi]) = k # ks"
    using assms(1) by (cases "filter ?P (rev [?lo..<hi])") (simp_all add: rfind_def hi)
  then have r: "rfind s c (int lo) (int hi) = int k"
    by (simp add: rfind_def hi)
  from found obtain us vs where split: "rev [?lo..<hi] = us @ k # vs"
    and none: "\<forall>u \<in> set us. \<not> ?P u" and here: "?P k"
    by (auto simp: filter_eq_Cons_iff)
  have "k \<in> set (rev [?lo..<hi])"
    unfolding split by simp
  then have range: "?lo \<le> k" "k < hi"
    by simp_all
  then have "lo \<le> k"
    using assms(2) by (simp add: min_def split: if_splits)
  have "sorted_wrt (>) (rev [?lo..<hi])"
    by (simp add: sorted_wrt_rev)
  then have below: "\<forall>v \<in> set vs. v < k"
    unfolding split by (simp add: sorted_wrt_append)
  have "s ! m \<noteq> c" if "k < m" "m < hi" for m
  proof -
    have "m \<in> set (rev [?lo..<hi])"
      using that range by simp
    then have "m \<in> set us"
      unfolding split using that(1) below by auto
    with none show ?thesis by blast
  qed
  with r \<open>lo \<le> k\<close> range(2) here show ?thesis
    by blast
qed

lemma stuck_fixpoint:
  assumes "0 \<le> chunk_overlap svc" "chunk_overlap svc < chunk_size svc"
    and "0 \<le> pos" "pos < int (length doc)"
    and "next_start svc (chunk_end svc doc pos) \<le> pos"
  defines "q \<equiv> next_start svc (chunk_end svc doc pos)"
  shows "q < int (length doc) \<and> next_start svc (chunk_end svc doc q) = q"
proof -
  let ?E = "chunk_end svc doc pos"
  have size: "0 < chunk_size svc"
    using assms(1,2) by linarith
  have E: "pos < ?E"
    using chunk_end_bounds(1) [OF assms(3) size] .
  have gone: "0 < ?E - chunk_overlap svc" "q = ?E - chunk_overlap svc"
    using assms(5) E unfolding q_def next_start_def Let_def by (auto split: if_splits)
  have q: "0 < q" "q \<le> pos" "q < ?E"
    using gone assms(5) E unfolding q_def by linarith+
  have "?E \<noteq> pos + chunk_size svc"
    using gone(2) q(2) assms(2) by linarith
  then have inside: "pos + chunk_size svc < int (length doc)"
    and cut: "?E = rfind doc SPACE pos (pos + chunk_size svc)"
    unfolding chunk_end_def Let_def by (auto split: if_splits)
  have "0 \<le> rfind doc SPACE (int (nat pos)) (int (nat (pos + chunk_size svc)))"
    using cut E assms(3) size by simp
  moreover have "nat (pos + chunk_size svc) \<le> length doc"
    using inside by linarith
  ultimately obtain k where k: "rfind doc SPACE (int (nat pos)) (int (nat (pos + chunk_size svc))) = int k"
    "doc ! k = SPACE" "\<forall>m. k < m \<and> m < nat (pos + chunk_size svc) \<longrightarrow> doc ! m \<noteq> SPACE"
    using rfind_found by blast
  have Ek: "?E = int k"
    using k(1) cut assms(3) size by simp
  have "rfind doc SPACE (int (nat q)) (int (nat (q + chunk_size svc))) = int k"
  proof (rule rfind_eqI)
    show "nat q \<le> k" using q(3) Ek by linarith
    show "k < nat (q + chunk_size svc)" using gone(2) Ek assms(2) by linarith
    show "nat (q + chunk_size svc) \<le> length doc" using q(2) inside by linarith
    show "doc ! k = SPACE" by (rule k(2))
    show "doc ! m \<noteq> SPACE" if "k < m" "m < nat (q + chunk_size svc)" for m
      using that k(3) q(2) by simp
  qed
  then have "rfind doc SPACE q (q + chunk_size svc) = ?E"
    using q(1) size Ek by simp
  then have "chunk_end svc doc q = ?E"
    using q(2,3) inside by (simp add: chunk_end_def Let_def)
  then have "next_start svc (chunk_end svc doc q) = q"
    using gone by (simp add: next_start_def Let_def)
  moreover have "q < int (length doc)"
    using q(2) assms(4) by linarith
  ultimately show ?thesis by simp
qed

lemma fixpoint_never_returns:
  assumes "scan_loop svc doc pos ps = Some out"
  shows "\<not> (pos < int (length doc) \<and> next_start svc (chunk_end svc doc pos) = pos)"
proof (rule scan_loop.raw_induct
    [where P = "\<lambda>svc doc pos ps out.
        \<not> (pos < int (length doc) \<and> next_start svc (chunk_end svc doc pos) = pos)",
      OF _ assms], goal_cases)
  case (1 loop svc doc pos ps out)
  show ?case
  proof
    assume stuck: "pos < int (length doc) \<and> next_start svc (chunk_end svc doc pos) = pos"
    with 1(2) obtain ps' where "loop svc doc pos ps' = Some out"
      by (simp add: Let_def)
    then have "\<not> (pos < int (length doc) \<and> next_start svc (chunk_end svc doc pos) = pos)"
      by (rule 1(1))
    with stuck show False by simp
  qed
qed

lemma returning_scan_advances:
  assumes "0 \<le> chunk_overlap svc" "chunk_overlap svc < chunk_size svc"
    and "scan_loop svc doc pos ps = Some out" "0 \<le> pos"
  shows "list_all (\<lambda>p. p < next_start svc (chunk_end svc doc p)) (scan_starts n svc doc pos)"
  using assms(3,4)
proof (induction n arbitrary: pos ps)
  case 0
  then show ?case by simp
next
  case (Suc n)
  show ?case
  proof (cases "pos < int (length doc)")
    case False
    then show ?thesis by simp
  next
    case True
    let ?next = "next_start svc (chunk_end svc doc pos)"
    have run: "scan_loop svc doc ?next (ps @ [piece_at svc doc pos]) = Some out"
      using Suc.prems(1) True by (simp add: scan_loop_step piece_at_def)
    have further: "pos < ?next"
    proof (rule ccontr)
      assume "\<not> pos < ?next"
      then have "?next \<le> pos" by simp
      then have "?next < int (length doc) \<and> next_start svc (chunk_end svc doc ?next) = ?next"
        using stuck_fixpoint [OF assms(1,2) Suc.prems(2) True] by simp
      with fixpoint_never_returns [OF run] show False by simp
    qed
    then have "0 \<le> ?next"
      using Suc.prems(2) by linarith
    with run have "list_all (\<lambda>p. p < next_start svc (chunk_end svc doc p)) (scan_starts n svc doc ?next)"
      by (rule Suc.IH)
    with further True show ?thesis by simp
  qed
qed

text \<open>
  C8 (as amended), with \<open>0 \<le> overlap < chunk_size\<close>. \<open>chunk_text\<close> returns exactly
  when every pass of the scan moves \<open>start\<close> forward. Whenever it returns, the passes
  of the scan are those that begin at the positions \<open>scan_starts\<close>; the pieces that
  they cut, those that are empty after trimming included, cover every index of the text
  and leave no gap (each piece starts at or before the end of the piece before it);
  each piece is the trimmed slice of its span; the chunks returned are the non-empty
  pieces in order; and no chunk is longer than \<open>chunk_size\<close>.
\<close>

theorem chunk_text_pieces_cover:
  assumes "0 \<le> chunk_overlap svc" "chunk_overlap svc < chunk_size svc"
  shows "((\<exists>chunks. chunk_text svc doc = Some chunks) \<longleftrightarrow> advances svc doc) \<and>
         (\<forall>chunks. chunk_text svc doc = Some chunks \<longrightarrow>
            (\<exists>ps. chunk_scan svc doc = Some ps \<and>
               map fst ps = scan_starts (length doc) svc doc 0 \<and>
               chunks = map piece_text (appended ps) \<and>
               (\<forall>k. 0 \<le> k \<and> k < int (length doc) \<longrightarrow> covered (map piece_span ps) k) \<and>
               no_gaps (map piece_span ps) \<and>
               (\<forall>p \<in> set ps.
                  piece_text p = strip (slice doc (fst (piece_span p)) (snd (piece_span p)))) \<and>
               (\<forall>c \<in> set chunks. int (length c) \<le> chunk_size svc)))"
proof (intro conjI allI impI)
  show "(\<exists>chunks. chunk_text svc doc = Some chunks) \<longleftrightarrow> advances svc doc"
  proof
    assume "\<exists>chunks. chunk_text svc doc = Some chunks"
    then obtain ps where "scan_loop svc doc 0 [] = Some ps"
      by (auto simp: chunk_text_scan chunk_scan_def)
    then show "advances svc doc"
      unfolding advances_def using assms by (intro returning_scan_advances [where ps = "[]"]) simp_all
  next
    assume "advances svc doc"
    then show "\<exists>chunks. chunk_text svc doc = Some chunks"
      by (simp add: chunk_scan_advances chunk_text_scan)
  qed
next
  fix chunks
  assume returns: "chunk_text svc doc = Some chunks"
  then obtain ps where ps: "chunk_scan svc doc = Some ps"
    and chunks: "chunks = map piece_text (appended ps)"
    by (auto simp: chunk_text_scan)
  have "advances svc doc"
    unfolding advances_def using assms ps
    by (intro returning_scan_advances [where ps = "[]"]) (simp_all add: chunk_scan_def)
  then have "chunk_scan svc doc = Some (map (piece_at svc doc) (scan_starts (length doc) svc doc 0))"
    by (rule chunk_scan_advances)
  moreover have "map fst (map (piece_at svc doc) xs) = xs" for xs
    by (induction xs) (simp_all add: piece_at_def)
  ultimately have starts: "map fst ps = scan_starts (length doc) svc doc 0"
    using ps by simp
  have size: "0 < chunk_size svc" using assms by linarith
  have "scan_inv svc doc (int (length doc)) ps"
    using ps size assms(1) scan_inv_start
    unfolding chunk_scan_def by (intro scan_inv_final [where pos = 0 and ps = "[]"]) simp_all
  then have inv: "\<forall>k. 0 \<le> k \<and> k < int (length doc) \<longrightarrow> covered (map piece_span ps) k"
    "no_gaps (map piece_span ps)"
    "\<forall>p \<in> set ps. piece_text p = strip (slice doc (fst (piece_span p)) (snd (piece_span p)))"
    "\<forall>p \<in> set ps. int (length (piece_text p)) \<le> chunk_size svc"
    unfolding scan_inv_def by blast+
  have "\<forall>c \<in> set chunks. int (length c) \<le> chunk_size svc"
    using inv(4) by (auto simp: chunks appended_def)
  with ps starts chunks inv(1-3) show "\<exists>ps. chunk_scan svc doc = Some ps \<and>
      map fst ps = scan_starts (length doc) svc doc 0 \<and>
      chunks = map piece_text (appended ps) \<and>
      (\<forall>k. 0 \<le> k \<and> k < int (length doc) \<longrightarrow> covered (map piece_span ps) k) \<and>
      no_gaps (map piece_span ps) \<and>
      (\<forall>p \<in> set ps.
         piece_text p = strip (slice doc (fst (piece_span p)) (snd (piece_span p)))) \<and>
      (\<forall>c \<in> set chunks. int (length c) \<le> chunk_size svc)"
    by blast
qed

lemma gap_text_length: "length gap_text = 1801"
  by (simp add: gap_text_def)

lemma gap_text_no_space: "SPACE \<notin> set gap_text"
  by (simp add: gap_text_def SPACE_def)

lemma gap_text_ends:
  "chunk_end DocumentService gap_text 0 = 1000"
  "chunk_end DocumentService gap_text 800 = 1800"
  "chunk_end DocumentService gap_text 1600 = 2600"
  by (simp_all add: chunk_end_def DocumentService_def gap_text_length rfind_none [OF gap_text_no_space])

lemma next_start_values:
  "next_start DocumentService 1000 = 800"
  "next_start DocumentService 1800 = 1600"
  "next_start DocumentService 2600 = 2400"
  by (simp_all add: next_start_def DocumentService_def)

lemma gap_text_pieces:
  "strip (slice gap_text 0 1000) = [97]"
  "strip (slice gap_text 800 1800) = []"
  "strip (slice gap_text 1600 2600) = [98]"
  by (simp_all add: slice_def gap_text_def clamp_index_def Let_def strip_def isspace_values
      dropWhile_replicate_append)

lemma gap_text_scan:
  "chunk_scan DocumentService gap_text = Some [(0, 1000, [97]), (800, 1800, []), (1600, 2600, [98])]"
  unfolding chunk_scan_def
  by (simp add: scan_loop_step scan_loop_exit gap_text_length gap_text_ends next_start_values
      gap_text_pieces)

text \<open>
  C8 as stated fails for the chunks that are produced: on \<open>gap_text\<close> the scan cuts
  \<open>[0, 1000)\<close>, \<open>[800, 1800)\<close> and \<open>[1600, 2600)\<close>; the middle piece is all newlines,
  is empty after trimming and is not appended, so the second chunk produced starts at
  1600, after the end (1000) of the first.
\<close>

theorem chunk_text_gap_between_chunks:
  "chunk_text DocumentService gap_text = Some [[97], [98]] \<and>
   chunk_spans DocumentService gap_text = Some [(0, 1000), (1600, 2600)] \<and>
   \<not> no_gaps [(0, 1000), (1600, 2600)]"
  by (simp add: chunk_text_scan chunk_spans_def gap_text_scan appended_def piece_text_def piece_span_def)

lemma words_text_length: "length words_text = 3401"
  by (simp add: words_text_def)

lemma words_text_nth:
  "k < 3401 \<Longrightarrow>
   words_text ! k =
     (if k < 500 then 97 else if k = 500 then SPACE else if k < 1101 then 99
      else if k < 3101 then SPACE else 98)"
  by (auto simp: words_text_def nth_append)

lemma words_text_rfind:
  "rfind words_text SPACE 0 1000 = 500"
  "rfind words_text SPACE 300 1300 = 1299"
  "rfind words_text SPACE 1099 2099 = 2098"
  "rfind words_text SPACE 1898 2898 = 2897"
proof -
  have "rfind words_text SPACE (int 0) (int 1000) = int 500"
    by (rule rfind_eqI) (simp_all add: words_text_length words_text_nth SPACE_def)
  then show "rfind words_text SPACE 0 1000 = 500" by simp
  have "rfind words_text SPACE (int 300) (int 1300) = int 1299"
    by (rule rfind_eqI) (simp_all add: words_text_length words_text_nth SPACE_def)
  then show "rfind words_text SPACE 300 1300 = 1299" by simp
  have "rfind words_text SPACE (int 1099) (int 2099) = int 2098"
    by (rule rfind_eqI) (simp_all add: words_text_length words_text_nth SPACE_def)
  then show "rfind words_text SPACE 1099 2099 = 2098" by simp
  have "rfind words_text SPACE (int 1898) (int 2898) = int 2897"
    by (rule rfind_eqI) (simp_all add: words_text_length words_text_nth SPACE_def)
  then show "rfind words_text SPACE 1898 2898 = 2897" by simp
qed

lemma words_text_ends:
  "chunk_end DocumentService words_text 0 = 500"
  "chunk_end DocumentService words_text 300 = 1299"
  "chunk_end DocumentService words_text 1099 = 2098"
  "chunk_end DocumentService words_text 1898 = 2897"
  "chunk_end DocumentService words_text 2697 = 3697"
  by (simp_all add: chunk_end_def DocumentService_def words_text_length words_text_rfind)

lemma words_text_next:
  "next_start DocumentService 500 = 300"
  "next_start DocumentService 1299 = 1099"
  "next_start DocumentService 2098 = 1898"
  "next_start DocumentService 2897 = 2697"
  "next_start DocumentService 3697 = 3497"
  by (simp_all add: next_start_def DocumentService_def)

lemma dropWhile_replicate_keep:
  "\<not> P x \<Longrightarrow> 0 < n \<Longrightarrow> dropWhile P (replicate n x @ ys) = replicate n x @ ys"
  by (cases n) simp_all

lemma words_text_pieces:
  "strip (slice words_text 0 500) = replicate 500 97"
  "strip (slice words_text 300 1299) = replicate 200 97 @ [SPACE] @ replicate 600 99"
  "strip (slice words_text 1099 2098) = [99, 99]"
  "strip (slice words_text 1898 2897) = []"
  "strip (slice words_text 2697 3697) = replicate 300 98"
  by (simp_all add: slice_def words_text_def clamp_index_def Let_def strip_def isspace_values
      SPACE_def isspace_more dropWhile_replicate_append dropWhile_replicate_keep numeral_2_eq_2)

lemma words_text_starts:
  "scan_starts (length words_text) DocumentService words_text 0 = [0, 300, 1099, 1898, 2697]"
  by (simp add: words_text_length scan_starts_step scan_starts_exit words_text_ends words_text_next)

lemma words_text_scan:
  "chunk_scan DocumentService words_text =
     Some [(0, 500, replicate 500 97),
           (300, 1299, replicate 200 97 @ [SPACE] @ replicate 600 99),
           (1099, 2098, [99, 99]),
           (1898, 2897, []),
           (2697, 3697, replicate 300 98)]"
  unfolding chunk_scan_def
  by (simp add: scan_loop_step scan_loop_exit words_text_length words_text_ends words_text_next
      words_text_pieces)

lemma words_text_advances: "advances DocumentService words_text"
  by (simp add: advances_def words_text_starts words_text_ends words_text_next)

lemma small_text_length: "length small_text = 8"
  by (simp add: small_text_def lit_def)

lemma small_text_ends:
  "chunk_end small_service small_text 0 = 3"
  "chunk_end small_service small_text 3 = 8"
  "chunk_end small_service small_text 5 = 10"
  "chunk_end small_service small_text 7 = 12"
  "chunk_end small_service small_text 2 = 5"
  by (simp_all add: chunk_end_def small_service_def small_text_length rfind_def clamp_index_def
      upt_rec_numeral small_text_def lit_def SPACE_def Let_def)

lemma small_text_next:
  "next_start small_service 3 = 3"
  "next_start small_service 8 = 5"
  "next_start small_service 10 = 7"
  "next_start small_service 12 = 9"
  "next_start small_service 5 = 2"
  by (simp_all add: next_start_def small_service_def)

lemma small_text_starts:
  "scan_starts (length small_text) small_service small_text 0 = [0, 3, 5, 7]"
  by (simp add: small_text_length scan_starts_step scan_starts_exit small_text_ends small_text_next)

lemma small_text_advances: "advances small_service small_text"
  by (simp add: advances_def small_text_starts small_text_ends small_text_next)

lemma small_text_pieces:
  "strip (slice small_text 0 3) = lit ''aaa''"
  "strip (slice small_text 3 8) = lit ''a aa''"
  "strip (slice small_text 5 10) = lit ''aa''"
  "strip (slice small_text 7 12) = lit ''a''"
  by (simp_all add: slice_def small_text_def lit_def clamp_index_def Let_def strip_def isspace_def)

lemma small_text_scan:
  "chunk_scan small_service small_text =
     Some [(0, 3, lit ''aaa''), (3, 8, lit ''a aa''), (5, 10, lit ''aa''), (7, 12, lit ''a'')]"
  unfolding chunk_scan_def
  by (simp add: scan_loop_step scan_loop_exit small_text_length small_text_ends small_text_next
      small_text_pieces)

text \<open>
  The hypotheses of the theorem above hold for the settings of the source and
  \<open>words_text\<close>. The scan makes five passes: the first is cut at the space after the
  first word, the second begins 200 characters before that cut and is cut at the last
  space of its window, the fourth is all spaces and is dropped. They also hold for
  \<open>small_service\<close> and \<open>small_text\<close>, where the pass that would begin at index 2 would
  not move \<open>start\<close> (it would cut at the space at index 5 and go back 3), and no pass of
  the scan begins there.
\<close>

theorem chunk_text_pieces_cover_witness:
  "0 \<le> chunk_overlap DocumentService \<and> chunk_overlap DocumentService < chunk_size DocumentService \<and>
   advances DocumentService words_text \<and>
   chunk_scan DocumentService words_text =
     Some [(0, 500, replicate 500 97),
           (300, 1299, replicate 200 97 @ [SPACE] @ replicate 600 99),
           (1099, 2098, [99, 99]),
           (1898, 2897, []),
           (2697, 3697, replicate 300 98)] \<and>
   chunk_text DocumentService words_text =
     Some [replicate 500 97, replicate 200 97 @ [SPACE] @ replicate 600 99, [99, 99], replicate 300 98] \<and>
   (\<exists>ps. chunk_scan DocumentService words_text = Some ps \<and>
      map fst ps = scan_starts (length words_text) DocumentService words_text 0 \<and>
      (\<forall>k. 0 \<le> k \<and> k < int (length words_text) \<longrightarrow> covered (map piece_span ps) k) \<and>
      no_gaps (map piece_span ps) \<and>
      (\<forall>p \<in> set ps. piece_text p = strip (slice words_text (fst (piece_span p)) (snd (piece_span p)))) \<and>
      (\<forall>c \<in> set (map piece_text (appended ps)). int (length c) \<le> chunk_size DocumentService)) \<and>
   0 \<le> chunk_overlap small_service \<and> chunk_overlap small_service < chunk_size small_service \<and>
   advances small_service small_text \<and>
   next_start small_service (chunk_end small_service small_text 2) = 2 \<and>
   chunk_text small_service small_text = Some [lit ''aaa'', lit ''a aa'', lit ''aa'', lit ''a''] \<and>
   (\<exists>ps. chunk_scan small_service small_text = Some ps \<and>
      map fst ps = [0, 3, 5, 7] \<and>
      (\<forall>k. 0 \<le> k \<and> k < 8 \<longrightarrow> covered (map piece_span ps) k) \<and>
      no_gaps (map piece_span ps))"
proof -
  have h: "0 \<le> chunk_overlap DocumentService" "chunk_overlap DocumentService < chunk_size DocumentService"
    by (simp_all add: DocumentService_def)
  have chunks: "chunk_text DocumentService words_text =
      Some [replicate 500 97, replicate 200 97 @ [SPACE] @ replicate 600 99, [99, 99], replicate 300 98]"
    by (simp add: chunk_text_scan words_text_scan appended_def piece_text_def)
  note cover = chunk_text_pieces_cover [OF h, of words_text]
  from cover [THEN conjunct1] words_text_advances
  obtain cs where cs: "chunk_text DocumentService words_text = Some cs"
    by blast
  from cover [THEN conjunct2, rule_format, OF cs]
  obtain ps where ps: "chunk_scan DocumentService words_text = Some ps"
    "map fst ps = scan_starts (length words_text) DocumentService words_text 0"
    "cs = map piece_text (appended ps)"
    "\<forall>k. 0 \<le> k \<and> k < int (length words_text) \<longrightarrow> covered (map piece_span ps) k"
    "no_gaps (map piece_span ps)"
    "\<forall>p \<in> set ps. piece_text p = strip (slice words_text (fst (piece_span p)) (snd (piece_span p)))"
    "\<forall>c \<in> set cs. int (length c) \<le> chunk_size DocumentService"
    by blast
  then have first: "\<exists>ps. chunk_scan DocumentService words_text = Some ps \<and>
      map fst ps = scan_starts (length words_text) DocumentService words_text 0 \<and>
      (\<forall>k. 0 \<le> k \<and> k < int (length words_text) \<longrightarrow> covered (map piece_span ps) k) \<and>
      no_gaps (map piece_span ps) \<and>
      (\<forall>p \<in> set ps. piece_text p = strip (slice words_text (fst (piece_span p)) (snd (piece_span p)))) \<and>
      (\<forall>c \<in> set (map piece_text (appended ps)). int (length c) \<le> chunk_size DocumentService)"
    by blast
  have g: "0 \<le> chunk_overlap small_service" "chunk_overlap small_service < chunk_size small_service"
    by (simp_all add: small_service_def)
  have stuck: "next_start small_service (chunk_end small_service small_text 2) = 2"
    by (simp add: small_text_ends small_text_next)
  have small: "chunk_text small_service small_text = Some [lit ''aaa'', lit ''a aa'', lit ''aa'', lit ''a'']"
    by (simp add: chunk_text_scan small_text_scan appended_def piece_text_def lit_def)
  note small_cover = chunk_text_pieces_cover [OF g, of small_text]
  from small_cover [THEN conjunct1] small_text_advances
  obtain ds where ds: "chunk_text small_service small_text = Some ds"
    by blast
  from small_cover [THEN conjunct2, rule_format, OF ds]
  obtain qs where qs: "chunk_scan small_service small_text = Some qs"
    "map fst qs = scan_starts (length small_text) small_service small_text 0"
    "\<forall>k. 0 \<le> k \<and> k < int (length small_text) \<longrightarrow> covered (map piece_span qs) k"
    "no_gaps (map piece_span qs)"
    by blast
  then have second: "\<exists>ps. chunk_scan small_service small_text = Some ps \<and>
      map fst ps = [0, 3, 5, 7] \<and>
      (\<forall>k. 0 \<le> k \<and> k < 8 \<longrightarrow> covered (map piece_span ps) k) \<and>
      no_gaps (map piece_span ps)"
    using small_text_starts by (simp add: small_text_length)
  from h words_text_advances words_text_scan chunks first g small_text_advances stuck small second
  show ?thesis
    by (intro conjI)
qed

section \<open>The scan can stay at one position\<close>

lemma long_token_length: "length long_token_text = 1002"
  by (simp add: long_token_text_def)

lemma long_token_nth:
  "k < 1002 \<Longrightarrow> long_token_text ! k = (if k = 201 then SPACE else 97)"
  by (auto simp: long_token_text_def nth_append SPACE_def)

lemma long_token_rfind:
  assumes "lo \<le> 201" "201 < hi" "hi \<le> 1002"
  shows "rfind long_token_text SPACE (int lo) (int hi) = 201"
proof -
  have "rfind long_token_text SPACE (int lo) (int hi) = int 201"
  proof (rule rfind_eqI)
    show "lo \<le> 201" "201 < hi" by (rule assms)+
    show "hi \<le> length long_token_text" using assms(3) by (simp add: long_token_length)
    show "long_token_text ! 201 = SPACE" by (simp add: long_token_nth)
    show "long_token_text ! m \<noteq> SPACE" if "201 < m" "m < hi" for m
      using that assms(3) by (simp add: long_token_nth SPACE_def)
  qed
  then show ?thesis by simp
qed

lemma long_token_end_0: "chunk_end DocumentService long_token_text 0 = 201"
  using long_token_rfind [of 0 1000]
  by (simp add: chunk_end_def DocumentService_def long_token_length)

lemma long_token_end_1: "chunk_end DocumentService long_token_text 1 = 201"
  using long_token_rfind [of 1 1001]
  by (simp add: chunk_end_def DocumentService_def long_token_length)

lemma next_start_201: "next_start DocumentService 201 = 1"
  by (simp add: next_start_def DocumentService_def)

lemma long_token_stuck_aux:
  assumes "chunk_loop svc doc pos chunks = Some out"
  shows "\<not> (svc = DocumentService \<and> doc = long_token_text \<and> pos = 1)"
proof (rule chunk_loop.raw_induct
    [where P = "\<lambda>svc doc pos chunks out. \<not> (svc = DocumentService \<and> doc = long_token_text \<and> pos = 1)",
      OF _ assms], goal_cases)
  case (1 loop svc doc pos chunks out)
  show ?case
  proof
    assume stuck: "svc = DocumentService \<and> doc = long_token_text \<and> pos = 1"
    with 1(2) obtain chunks' where "loop svc doc pos chunks' = Some out"
      by (simp add: long_token_end_1 next_start_201 long_token_length Let_def)
    then have "\<not> (svc = DocumentService \<and> doc = long_token_text \<and> pos = 1)"
      using 1(1) by blast
    with stuck show False by simp
  qed
qed

lemma long_token_stuck:
  "chunk_loop DocumentService long_token_text 1 chunks = None"
proof (cases "chunk_loop DocumentService long_token_text 1 chunks")
  case None
  then show ?thesis .
next
  case (Some out)
  then show ?thesis
    using long_token_stuck_aux by blast
qed

text \<open>
  C1. For every finite text and parameters with \<open>chunk_size > overlap \<ge> 0\<close>,
  \<open>chunk_text\<close> is claimed to terminate, because the scan always moves forward. With
  the settings of the source (1000 and 200) and the text \<open>long_token_text\<close> it does not:
  the first pass cuts at the space (index 201) and moves \<open>start\<close> to 1; from there every
  pass finds the same space, cuts at 201 again and sets \<open>start\<close> to 201 - 200 = 1, which
  the guard \<open>start <= 0\<close> lets through. The call never returns.
\<close>

theorem chunk_text_long_token_never_returns:
  "chunk_text DocumentService long_token_text = None"
proof -
  have "chunk_loop DocumentService long_token_text 0 [] =
        chunk_loop DocumentService long_token_text 1
          (if strip (slice long_token_text 0 201) \<noteq> []
           then [] @ [strip (slice long_token_text 0 201)] else [])"
    by (subst chunk_loop.simps)
      (simp add: long_token_end_0 next_start_201 long_token_length Let_def)
  then show ?thesis
    by (simp only: chunk_text_def long_token_stuck)
qed

section \<open>Recorded chunk spans\<close>

lemma unbroken_text_length: "length unbroken_text = 1001"
  by (simp add: unbroken_text_def)

lemma unbroken_text_no_space: "SPACE \<notin> set unbroken_text"
  by (simp add: unbroken_text_def SPACE_def)

lemma unbroken_text_ends:
  "chunk_end DocumentService unbroken_text 0 = 1000"
  "chunk_end DocumentService unbroken_text 800 = 1800"
  by (simp_all add: chunk_end_def DocumentService_def unbroken_text_length
      rfind_none [OF unbroken_text_no_space])

lemma unbroken_text_pieces:
  "strip (slice unbroken_text 0 1000) = replicate 1000 97"
  "strip (slice unbroken_text 800 1800) = replicate 201 97"
  by (simp_all add: slice_def unbroken_text_def clamp_index_def Let_def strip_def isspace_values)

lemma unbroken_text_scan:
  "chunk_scan DocumentService unbroken_text =
     Some [(0, 1000, replicate 1000 97), (800, 1800, replicate 201 97)]"
  unfolding chunk_scan_def
  by (simp add: scan_loop_step scan_loop_exit unbroken_text_length unbroken_text_ends
      next_start_values unbroken_text_pieces)

lemma unbroken_text_chunks:
  "chunk_text DocumentService unbroken_text = Some [replicate 1000 97, replicate 201 97]"
  by (simp add: chunk_text_scan unbroken_text_scan appended_def piece_text_def)

lemma store_chunks_spans:
  "map row_span (document_chunks (store_chunks self gen_embedding uuid4 up document (enumerate n chunks) st)) =
     map row_span (document_chunks st) @
     map (\<lambda>i. (int i * (chunk_size self - chunk_overlap self),
                (int i + 1) * (chunk_size self - chunk_overlap self))) [n..<n + length chunks]"
proof (induction chunks arbitrary: n st)
  case Nil
  then show ?case by simp
next
  case (Cons c chunks)
  have upt: "[n..<n + length (c # chunks)] = n # [Suc n..<Suc n + length chunks]"
    using upt_conv_Cons [of n "Suc n + length chunks"] by (simp del: upt_Suc)
  have "row_span \<lparr>chunk_id = k, chunk_document_id = d, chunk_content = c, chunk_index = int n,
       start_char = int n * (chunk_size self - chunk_overlap self),
       end_char = (int n + 1) * (chunk_size self - chunk_overlap self), vector_id = v\<rparr> =
     (int n * (chunk_size self - chunk_overlap self),
      (int n + 1) * (chunk_size self - chunk_overlap self))" for k d v
    by (simp add: row_span_def)
  then show ?case
    unfolding upt
    by (simp add: Cons.IH add_document_chunk_def Let_def del: upt_Suc)
qed

lemma process_document_spans:
  assumes "chunk_text self (up_text_content up) = Some chunks"
  shows "map_option (\<lambda>r. map row_span (document_chunks (fst r)))
           (process_document self gen_embedding uuid4 st up) =
         Some (map row_span (document_chunks st) @
           map (\<lambda>i. (int i * (chunk_size self - chunk_overlap self),
                      (int i + 1) * (chunk_size self - chunk_overlap self))) [0..<length chunks])"
  using assms store_chunks_spans [where n = 0]
  by (simp add: process_document_def Let_def)

text \<open>
  C4. The chunk rows are claimed to record the spans of the chunking pass: the first
  starting at 0, each next one starting \<open>overlap\<close> before the end of the one before it.
  \<open>process_document\<close> computes the spans from the index alone, as
  \<open>i * (chunk_size - chunk_overlap)\<close> and \<open>(i + 1) * (chunk_size - chunk_overlap)\<close>. For a
  text of 1001 letters the rows record \<open>[0, 800)\<close> and \<open>[800, 1600)\<close>: the second row
  starts at the end of the first, not 200 before it, and the pass itself cut
  \<open>[0, 1000)\<close> and \<open>[800, 1800)\<close>.
\<close>

theorem process_document_rows_ignore_scan:
  "map_option (\<lambda>r. map row_span (document_chunks (fst r)))
     (process_document DocumentService gen_embedding uuid4 empty_store
        (up\<lparr>up_text_content := unbroken_text\<rparr>)) = Some [(0, 800), (800, 1600)] \<and>
   chunk_spans DocumentService unbroken_text = Some [(0, 1000), (800, 1800)]"
proof -
  have "chunk_text DocumentService (up_text_content (up\<lparr>up_text_content := unbroken_text\<rparr>)) =
      Some [replicate 1000 97, replicate 201 97]"
    by (simp add: unbroken_text_chunks)
  then have "map_option (\<lambda>r. map row_span (document_chunks (fst r)))
     (process_document DocumentService gen_embedding uuid4 empty_store
        (up\<lparr>up_text_content := unbroken_text\<rparr>)) =
     Some (map row_span (document_chunks empty_store) @
           map (\<lambda>i. (int i * (chunk_size DocumentService - chunk_overlap DocumentService),
                      (int i + 1) * (chunk_size DocumentService - chunk_overlap DocumentService)))
             [0..<length [replicate 1000 (97::nat), replicate 201 97]])"
    by (rule process_document_spans)
  also have "\<dots> = Some [(0, 800), (800, 1600)]"
    by (simp add: empty_store_def DocumentService_def upt_rec)
  finally have rows: "map_option (\<lambda>r. map row_span (document_chunks (fst r)))
     (process_document DocumentService gen_embedding uuid4 empty_store
        (up\<lparr>up_text_content := unbroken_text\<rparr>)) = Some [(0, 800), (800, 1600)]" .
  have "chunk_spans DocumentService unbroken_text = Some [(0, 1000), (800, 1800)]"
    by (simp add: chunk_spans_def unbroken_text_scan appended_def piece_text_def piece_span_def)
  with rows show ?thesis by simp
qed

section \<open>The chat service\<close>

text \<open>
  C2. \<open>load_conversation_history\<close> is claimed to load the most recent ten messages of
  a conversation. The query orders by \<open>timestamp\<close> ascending and then takes the first
  ten rows, so for the conversation of six exchanges it loads the five oldest exchanges
  (\<open>q1\<close> to \<open>a5\<close>), and the latest exchange (\<open>q6\<close>, \<open>a6\<close>), the two rows of the stored
  history after the tenth, is left out.
\<close>

theorem load_history_takes_oldest:
  "load_conversation_history long_database long_conversation =
     [(Human, lit ''q1''), (AI, lit ''a1''), (Human, lit ''q2''), (AI, lit ''a2''),
      (Human, lit ''q3''), (AI, lit ''a3''), (Human, lit ''q4''), (AI, lit ''a4''),
      (Human, lit ''q5''), (AI, lit ''a5'')] \<and>
   map msg_content (drop 10 (stored_history long_database (conv_id long_conversation))) =
     [lit ''q6'', lit ''a6'']"
  by (simp add: load_conversation_history_def history_query_def stored_history_def
      long_database_def long_conversation_def six_exchanges_def)

lemma save_message_messages:
  "messages (fst (save_message db conv content u sd cs now)) =
     messages db @ [snd (save_message db conv content u sd cs now)]"
  by (simp add: save_message_def update_conversation_def Let_def)

lemma save_message_fields:
  "msg_content (snd (save_message db conv content u sd cs now)) = content"
  "msg_is_user_message (snd (save_message db conv content u sd cs now)) = u"
  "msg_conversation_id (snd (save_message db conv content u sd cs now)) = conv_id conv"
  "msg_confidence_score (snd (save_message db conv content u sd cs now)) = cs"
  "msg_source_documents (snd (save_message db conv content u sd cs now)) = sd"
  "msg_timestamp (snd (save_message db conv content u sd cs now)) = now"
  by (simp_all add: save_message_def Let_def)

lemma error_result_fields:
  "map_of (error_result e sid) ''response'' =
     Some (PyStr (lit ''I apologize, but I encountered an error while processing your request: '' @ e))"
  "map_of (error_result e sid) ''session_id'' = Some (optional_str sid)"
  "map_of (error_result e sid) ''message_id'' = Some PyNone"
  "map_of (error_result e sid) ''sources'' = Some (PyList [])"
  "map_of (error_result e sid) ''confidence_score'' = Some PyNone"
  "map_of (error_result e sid) ''error'' = Some (PyStr e)"
  "map_of (error_result e sid) ''conversation_title'' = None"
  by (simp_all add: error_result_def)

lemma generate_response_chain_fails:
  assumes "get_or_create_conversation db email sid (env_uuid4 ev) = (db1, Inr (conv, usr))"
    and "env_chain ev (load_conversation_history db1 conv) msg = Inl e"
  shows "generate_response ev db email msg sid =
     (fst (save_message db1 conv msg True PyNone None (env_now_user ev)), error_result e sid)"
  using assms by (simp add: generate_response_def Let_def split: prod.splits)

lemma generate_response_has_response:
  "\<exists>t. map_of (snd (generate_response ev db email msg sid)) ''response'' = Some (PyStr t)"
  by (auto simp: generate_response_def Let_def error_result_def split: prod.splits sum.splits)

lemma user_message_stored:
  "\<exists>m \<in> set (stored_history (fst (save_message db1 conv msg True sd cs now)) (conv_id conv)).
      msg_content m = msg \<and> msg_is_user_message m"
proof -
  let ?m = "snd (save_message db1 conv msg True sd cs now)"
  have "?m \<in> set (stored_history (fst (save_message db1 conv msg True sd cs now)) (conv_id conv))"
    by (simp add: stored_history_def save_message_messages save_message_fields)
  then show ?thesis
    using save_message_fields(1,2) [of db1 conv msg True sd cs now] by blast
qed

lemma generate_response_confidence_fails:
  assumes "get_or_create_conversation db email sid (env_uuid4 ev) = (db1, Inr (conv, usr))"
    and "env_chain ev (load_conversation_history db1 conv) msg = Inr (answer, docs)"
    and "confidence (map source_info docs) = Inl e"
  shows "generate_response ev db email msg sid =
     (fst (save_message db1 conv msg True PyNone None (env_now_user ev)), error_result e sid)"
  using assms by (simp add: generate_response_def Let_def split: prod.splits)

text \<open>
  C3. \<open>generate_response\<close> returns a result with a response text for every input. When
  the conversation is resolved and retrieval or generation then fails (the chain raises,
  or scoring its sources does), the result carries the apology with the text of the
  exception, the \<open>error\<close> field, no sources and no confidence score, and the user's
  message, stored before the chain ran, is in the stored history of the conversation.
\<close>

theorem generate_response_always_responds:
  "(\<exists>t. map_of (snd (generate_response ev db email msg sid)) ''response'' = Some (PyStr t)) \<and>
   (get_or_create_conversation db email sid (env_uuid4 ev) = (db1, Inr (conv, usr)) \<and>
    (env_chain ev (load_conversation_history db1 conv) msg = Inl e \<or>
     (\<exists>answer docs. env_chain ev (load_conversation_history db1 conv) msg = Inr (answer, docs) \<and>
        confidence (map source_info docs) = Inl e)) \<longrightarrow>
    (\<exists>db' res. generate_response ev db email msg sid = (db', res) \<and>
       map_of res ''response'' =
         Some (PyStr (lit ''I apologize, but I encountered an error while processing your request: '' @ e)) \<and>
       map_of res ''error'' = Some (PyStr e) \<and>
       map_of res ''sources'' = Some (PyList []) \<and>
       map_of res ''confidence_score'' = Some PyNone \<and>
       (\<exists>m \<in> set (stored_history db' (conv_id conv)). msg_content m = msg \<and> msg_is_user_message m)))"
proof (intro conjI impI)
  show "\<exists>t. map_of (snd (generate_response ev db email msg sid)) ''response'' = Some (PyStr t)"
    by (rule generate_response_has_response)
next
  assume h: "get_or_create_conversation db email sid (env_uuid4 ev) = (db1, Inr (conv, usr)) \<and>
    (env_chain ev (load_conversation_history db1 conv) msg = Inl e \<or>
     (\<exists>answer docs. env_chain ev (load_conversation_history db1 conv) msg = Inr (answer, docs) \<and>
        confidence (map source_info docs) = Inl e))"
  then have "generate_response ev db email msg sid =
     (fst (save_message db1 conv msg True PyNone None (env_now_user ev)), error_result e sid)"
    using generate_response_chain_fails generate_response_confidence_fails by blast
  then show "\<exists>db' res. generate_response ev db email msg sid = (db', res) \<and>
       map_of res ''response'' =
         Some (PyStr (lit ''I apologize, but I encountered an error while processing your request: '' @ e)) \<and>
       map_of res ''error'' = Some (PyStr e) \<and>
       map_of res ''sources'' = Some (PyList []) \<and>
       map_of res ''confidence_score'' = Some PyNone \<and>
       (\<exists>m \<in> set (stored_history db' (conv_id conv)). msg_content m = msg \<and> msg_is_user_message m)"
    using user_message_stored [of db1 conv msg PyNone None "env_now_user ev"]
    by (simp add: error_result_fields)
qed

lemma first_call_resolution:
  "get_or_create_conversation empty_database (lit ''ann@example.com'') None (lit ''uuid-1'') =
     (first_database, Inr (fresh_conversation, ann))"
  by (simp add: get_or_create_conversation_def get_or_create_user_def empty_database_def given_def
      next_id_def email_prefix_def ann_def fresh_conversation_def first_database_def lit_def Let_def)

lemma failing_env_fields:
  "env_uuid4 failing_env = lit ''uuid-1''" "env_chain failing_env mem q = Inl (lit ''timeout'')"
  "env_now_user failing_env = 1"
  by (simp_all add: failing_env_def)

text \<open>
  The hypotheses of the theorem above hold for a first call whose
  chain raises \<open>timeout\<close>.
\<close>

theorem generate_response_always_responds_witness:
  "get_or_create_conversation empty_database (lit ''ann@example.com'') None (env_uuid4 failing_env) =
     (first_database, Inr (fresh_conversation, ann)) \<and>
   env_chain failing_env (load_conversation_history first_database fresh_conversation) remote_question =
     Inl (lit ''timeout'') \<and>
   (\<exists>db' res. generate_response failing_env empty_database (lit ''ann@example.com'') remote_question None =
        (db', res) \<and>
      map_of res ''response'' =
        Some (PyStr (lit ''I apologize, but I encountered an error while processing your request: '' @
                     lit ''timeout'')) \<and>
      map_of res ''error'' = Some (PyStr (lit ''timeout'')) \<and>
      map_of res ''sources'' = Some (PyList []) \<and>
      map_of res ''confidence_score'' = Some PyNone \<and>
      (\<exists>m \<in> set (stored_history db' (conv_id fresh_conversation)).
          msg_content m = remote_question \<and> msg_is_user_message m))"
proof -
  have h1: "get_or_create_conversation empty_database (lit ''ann@example.com'') None (env_uuid4 failing_env) =
     (first_database, Inr (fresh_conversation, ann))"
    by (simp only: failing_env_fields first_call_resolution)
  have h2: "env_chain failing_env (load_conversation_history first_database fresh_conversation)
      remote_question = Inl (lit ''timeout'')"
    by (simp only: failing_env_fields)
  show ?thesis
    using generate_response_always_responds [of failing_env empty_database "lit ''ann@example.com''"
        remote_question None first_database fresh_conversation ann "lit ''timeout''"] h1 h2
    by blast
qed

lemma generate_response_cases:
  assumes "generate_response ev db email msg sid = (db', res)"
  shows "(\<exists>e. res = error_result e sid) \<or>
         (\<exists>a s i src c t. res = [(''response'', PyStr a), (''session_id'', PyStr s),
            (''message_id'', PyInt i), (''sources'', src), (''confidence_score'', c),
            (''conversation_title'', PyStr t)])"
  using assms
  by (auto simp: generate_response_def Let_def split: prod.splits sum.splits)

text \<open>
  C10. A result of \<open>generate_response\<close> that has the \<open>error\<close> key is the dictionary of
  the \<open>except\<close> branch: its \<open>session_id\<close> is the argument of the call as it came
  (the string supplied, \<open>None\<close> when none was), its \<open>message_id\<close> is \<open>None\<close>, and it
  has no \<open>conversation_title\<close> key. A result without the \<open>error\<close> key carries the
  \<open>session_id\<close> of the conversation that the call resolved, an integer \<open>message_id\<close>
  and a \<open>conversation_title\<close>.
\<close>

theorem error_result_echoes_session_argument:
  assumes "generate_response ev db email msg sid = (db', res)"
  shows "(map_of res ''error'' \<noteq> None \<longrightarrow>
            (\<exists>e. res =
               [(''response'',
                   PyStr (lit ''I apologize, but I encountered an error while processing your request: '' @ e)),
                (''session_id'', (case sid of None \<Rightarrow> PyNone | Some s \<Rightarrow> PyStr s)),
                (''message_id'', PyNone),
                (''sources'', PyList []),
                (''confidence_score'', PyNone),
                (''error'', PyStr e)]) \<and>
            map_of res ''session_id'' = Some (case sid of None \<Rightarrow> PyNone | Some s \<Rightarrow> PyStr s) \<and>
            map_of res ''message_id'' = Some PyNone \<and>
            map_of res ''conversation_title'' = None) \<and>
         (map_of res ''error'' = None \<longrightarrow>
            (\<exists>db1 conv usr.
               get_or_create_conversation db email sid (env_uuid4 ev) = (db1, Inr (conv, usr)) \<and>
               map_of res ''session_id'' = Some (PyStr (conv_session_id conv))) \<and>
            (\<exists>i. map_of res ''message_id'' = Some (PyInt i)) \<and>
            (\<exists>t. map_of res ''conversation_title'' = Some (PyStr t)))"
proof -
  obtain db1 r where g: "get_or_create_conversation db email sid (env_uuid4 ev) = (db1, r)"
    by (cases "get_or_create_conversation db email sid (env_uuid4 ev)") blast
  let ?failed = "\<lambda>e. [(''response'',
        PyStr (lit ''I apologize, but I encountered an error while processing your request: '' @ e)),
      (''session_id'', (case sid of None \<Rightarrow> PyNone | Some s \<Rightarrow> PyStr s)),
      (''message_id'', PyNone), (''sources'', PyList []), (''confidence_score'', PyNone),
      (''error'', PyStr e)]"
  have failed: "error_result e sid = ?failed e" for e
    by (simp add: error_result_def optional_str_def)
  from assms g consider (err) e where "res = ?failed e"
    | (ok) conv usr a i src c t where "r = Inr (conv, usr)"
        "res = [(''response'', PyStr a), (''session_id'', PyStr (conv_session_id conv)),
          (''message_id'', PyInt i), (''sources'', src), (''confidence_score'', c),
          (''conversation_title'', PyStr t)]"
    by (auto simp: generate_response_def Let_def failed split: prod.splits sum.splits)
  then show ?thesis
  proof cases
    case err
    then show ?thesis by auto
  next
    case ok
    with g show ?thesis by auto
  qed
qed

lemma answering_env_fields:
  "env_uuid4 (answering_env docs) = lit ''uuid-1''"
  "env_chain (answering_env docs) mem q = Inr (lit ''Two days per week.'', docs)"
  "env_now_user (answering_env docs) = 1" "env_now_ai (answering_env docs) = 2"
  by (simp_all add: answering_env_def)

lemma generate_response_succeeds:
  assumes "get_or_create_conversation db email sid (env_uuid4 ev) = (db1, Inr (conv, usr))"
    and "env_chain ev (load_conversation_history db1 conv) msg = Inr (answer, docs)"
    and "confidence (map source_info docs) = Inr score"
  shows "generate_response ev db email msg sid =
     (let db2 = fst (save_message db1 conv msg True PyNone None (env_now_user ev));
          saved = save_message db2 conv answer False
                    (PyList (map PyDict (map source_info docs))) score (env_now_ai ev);
          assign = (conv_title conv = NEW_CHAT \<and> length msg > 10);
          new_title = (if assign then title_from msg else conv_title conv)
      in (if assign
          then update_conversation (fst saved) (conv_id conv) (\<lambda>c. c\<lparr>conv_title := new_title\<rparr>)
          else fst saved,
          [(''response'', PyStr answer),
           (''session_id'', PyStr (conv_session_id conv)),
           (''message_id'', PyInt (int (msg_id (snd saved)))),
           (''sources'', PyList (map PyDict (map source_info docs))),
           (''confidence_score'', optional_float score),
           (''conversation_title'', PyStr new_title)]))"
  using assms by (simp add: generate_response_def Let_def split: prod.splits)

lemma remote_question_length: "length remote_question = 61"
  by (simp add: remote_question_def lit_def)

lemma supplied_call_resolution:
  "get_or_create_conversation empty_database (lit ''ann@example.com'') (Some (lit ''s1'')) (lit ''uuid-1'') =
     (supplied_database, Inr (supplied_conversation, ann))"
  by (simp add: get_or_create_conversation_def get_or_create_user_def empty_database_def given_def
      next_id_def email_prefix_def ann_def supplied_conversation_def supplied_database_def lit_def Let_def)

text \<open>
  All cases occur. A first call whose chain raises returns \<open>session_id = None\<close> when no
  \<open>session_id\<close> was given, although it has created a conversation with the session
  identifier \<open>uuid-1\<close>, and returns \<open>s1\<close> when \<open>s1\<close> was given; the call without
  \<open>session_id\<close> and with a chain that answers returns \<open>uuid-1\<close>.
\<close>

theorem error_result_echoes_session_argument_witness:
  "(\<exists>db' res. generate_response failing_env empty_database (lit ''ann@example.com'') remote_question None =
        (db', res) \<and>
      map conv_session_id (conversations db') = [lit ''uuid-1''] \<and>
      map_of res ''error'' = Some (PyStr (lit ''timeout'')) \<and>
      map_of res ''session_id'' = Some PyNone \<and>
      map_of res ''message_id'' = Some PyNone \<and>
      map_of res ''conversation_title'' = None) \<and>
   (\<exists>db' res. generate_response failing_env empty_database (lit ''ann@example.com'') remote_question
        (Some (lit ''s1'')) = (db', res) \<and>
      map_of res ''error'' = Some (PyStr (lit ''timeout'')) \<and>
      map_of res ''session_id'' = Some (PyStr (lit ''s1'')) \<and>
      map_of res ''message_id'' = Some PyNone \<and>
      map_of res ''conversation_title'' = None) \<and>
   (\<exists>db' res. generate_response (answering_env []) empty_database (lit ''ann@example.com'') remote_question None =
        (db', res) \<and>
      map_of res ''error'' = None \<and>
      map_of res ''session_id'' = Some (PyStr (lit ''uuid-1'')) \<and>
      (\<exists>i. map_of res ''message_id'' = Some (PyInt i)) \<and>
      (\<exists>t. map_of res ''conversation_title'' = Some (PyStr t)))"
proof -
  let ?db = "fst (save_message first_database fresh_conversation remote_question True PyNone None 1)"
  have run: "generate_response failing_env empty_database (lit ''ann@example.com'') remote_question None =
      (?db, error_result (lit ''timeout'') None)"
    using generate_response_chain_fails [of empty_database "lit ''ann@example.com''" None failing_env
        first_database fresh_conversation ann remote_question "lit ''timeout''"]
    by (simp add: failing_env_fields first_call_resolution)
  have sessions: "map conv_session_id (conversations ?db) = [lit ''uuid-1'']"
    by (simp add: save_message_def update_conversation_def first_database_def fresh_conversation_def
        Let_def)
  have key: "map_of (error_result (lit ''timeout'') x) ''error'' = Some (PyStr (lit ''timeout''))" for x
    by (simp add: error_result_fields)
  have failure: "map_of (error_result (lit ''timeout'') None) ''session_id'' = Some PyNone \<and>
      map_of (error_result (lit ''timeout'') None) ''message_id'' = Some PyNone \<and>
      map_of (error_result (lit ''timeout'') None) ''conversation_title'' = None"
    using error_result_echoes_session_argument [OF run] key [of None] by simp
  let ?db_s = "fst (save_message supplied_database supplied_conversation remote_question True PyNone None 1)"
  have run_s: "generate_response failing_env empty_database (lit ''ann@example.com'') remote_question
      (Some (lit ''s1'')) = (?db_s, error_result (lit ''timeout'') (Some (lit ''s1'')))"
    using generate_response_chain_fails [of empty_database "lit ''ann@example.com''" "Some (lit ''s1'')"
        failing_env supplied_database supplied_conversation ann remote_question "lit ''timeout''"]
    by (simp add: failing_env_fields supplied_call_resolution)
  have failure_s: "map_of (error_result (lit ''timeout'') (Some (lit ''s1''))) ''session_id'' =
        Some (PyStr (lit ''s1'')) \<and>
      map_of (error_result (lit ''timeout'') (Some (lit ''s1''))) ''message_id'' = Some PyNone \<and>
      map_of (error_result (lit ''timeout'') (Some (lit ''s1''))) ''conversation_title'' = None"
    using error_result_echoes_session_argument [OF run_s] key [of "Some (lit ''s1'')"] by simp
  obtain db2 res2 where run2: "generate_response (answering_env []) empty_database
      (lit ''ann@example.com'') remote_question None = (db2, res2)"
    by (cases "generate_response (answering_env []) empty_database
      (lit ''ann@example.com'') remote_question None") blast
  have "confidence (map source_info []) = Inr None"
    by (simp add: confidence_def)
  then have "generate_response (answering_env []) empty_database (lit ''ann@example.com'')
      remote_question None =
     (let db2 = fst (save_message first_database fresh_conversation remote_question True PyNone None
                       (env_now_user (answering_env [])));
          saved = save_message db2 fresh_conversation (lit ''Two days per week.'') False
                    (PyList (map PyDict (map source_info []))) None (env_now_ai (answering_env []));
          assign = (conv_title fresh_conversation = NEW_CHAT \<and> length remote_question > 10);
          new_title = (if assign then title_from remote_question else conv_title fresh_conversation)
      in (if assign
          then update_conversation (fst saved) (conv_id fresh_conversation) (\<lambda>c. c\<lparr>conv_title := new_title\<rparr>)
          else fst saved,
          [(''response'', PyStr (lit ''Two days per week.'')),
           (''session_id'', PyStr (conv_session_id fresh_conversation)),
           (''message_id'', PyInt (int (msg_id (snd saved)))),
           (''sources'', PyList (map PyDict (map source_info []))),
           (''confidence_score'', optional_float None),
           (''conversation_title'', PyStr new_title)]))"
    by (intro generate_response_succeeds) (simp_all add: answering_env_fields first_call_resolution)
  with run2 have ok: "map_of res2 ''error'' = None"
    by (auto simp: Let_def)
  have g2: "get_or_create_conversation empty_database (lit ''ann@example.com'') None
      (env_uuid4 (answering_env [])) = (first_database, Inr (fresh_conversation, ann))"
    by (simp only: answering_env_fields first_call_resolution)
  have "conv_session_id fresh_conversation = lit ''uuid-1''"
    by (simp add: fresh_conversation_def)
  with error_result_echoes_session_argument [OF run2] ok g2 have
    "map_of res2 ''session_id'' = Some (PyStr (lit ''uuid-1'')) \<and>
     (\<exists>i. map_of res2 ''message_id'' = Some (PyInt i)) \<and>
     (\<exists>t. map_of res2 ''conversation_title'' = Some (PyStr t))"
    by auto
  with run2 ok have success:
    "\<exists>db' res. generate_response (answering_env []) empty_database (lit ''ann@example.com'')
        remote_question None = (db', res) \<and>
      map_of res ''error'' = None \<and>
      map_of res ''session_id'' = Some (PyStr (lit ''uuid-1'')) \<and>
      (\<exists>i. map_of res ''message_id'' = Some (PyInt i)) \<and>
      (\<exists>t. map_of res ''conversation_title'' = Some (PyStr t))"
    by simp
  from run sessions failure key [of None] have first:
    "\<exists>db' res. generate_response failing_env empty_database (lit ''ann@example.com'') remote_question None =
        (db', res) \<and>
      map conv_session_id (conversations db') = [lit ''uuid-1''] \<and>
      map_of res ''error'' = Some (PyStr (lit ''timeout'')) \<and>
      map_of res ''session_id'' = Some PyNone \<and>
      map_of res ''message_id'' = Some PyNone \<and>
      map_of res ''conversation_title'' = None"
    by simp
  from run_s failure_s key [of "Some (lit ''s1'')"] have second:
    "\<exists>db' res. generate_response failing_env empty_database (lit ''ann@example.com'') remote_question
        (Some (lit ''s1'')) = (db', res) \<and>
      map_of res ''error'' = Some (PyStr (lit ''timeout'')) \<and>
      map_of res ''session_id'' = Some (PyStr (lit ''s1'')) \<and>
      map_of res ''message_id'' = Some PyNone \<and>
      map_of res ''conversation_title'' = None"
    by simp
  from first second success show ?thesis
    by (intro conjI)
qed

lemma source_info_score:
  "get_or (source_info d) ''relevance_score'' (PyInt 0) =
     get_or (metadata d) ''relevance_score'' (PyInt 0)"
  by (simp add: source_info_def get_or_def)

lemma sum_scores_numbers:
  assumes "map (\<lambda>d. number (get_or (metadata d) ''relevance_score'' (PyInt 0))) docs = map Inr rs"
  shows "sum_scores (map source_info docs) = Inr (sum_list rs)"
  using assms
proof (induction docs arbitrary: rs)
  case Nil
  then show ?case by simp
next
  case (Cons d docs)
  then obtain r rs' where rs: "rs = r # rs'"
    by (cases rs) auto
  with Cons.prems have "number (get_or (metadata d) ''relevance_score'' (PyInt 0)) = Inr r"
    and "map (\<lambda>d. number (get_or (metadata d) ''relevance_score'' (PyInt 0))) docs = map Inr rs'"
    by simp_all
  then show ?case
    using Cons.IH [of rs'] by (simp add: rs source_info_score)
qed

lemma confidence_numbers:
  assumes "map (\<lambda>d. number (get_or (metadata d) ''relevance_score'' (PyInt 0))) docs = map Inr rs"
  shows "confidence (map source_info docs) =
     Inr (if docs = [] then None else Some (min (sum_list rs / real (length rs)) 1))"
proof -
  have "length rs = length docs"
    using assms by (metis length_map)
  then show ?thesis
    using sum_scores_numbers [OF assms] by (simp add: confidence_def Let_def)
qed

text \<open>
  C5. When the chain returns source documents whose relevance scores are the numbers
  \<open>rs\<close>, the confidence score returned, and the one stored with the answer, is the
  mean of \<open>rs\<close> capped at 1; when it returns no source document both are \<open>None\<close>.
\<close>

theorem confidence_is_clamped_mean:
  assumes "get_or_create_conversation db email sid (env_uuid4 ev) = (db1, Inr (conv, usr))"
    and "env_chain ev (load_conversation_history db1 conv) msg = Inr (answer, docs)"
    and "map (\<lambda>d. number (get_or (metadata d) ''relevance_score'' (PyInt 0))) docs = map Inr rs"
    and "generate_response ev db email msg sid = (db', res)"
  shows "map_of res ''confidence_score'' =
           Some (if docs = [] then PyNone else PyFloat (min (sum_list rs / real (length rs)) 1)) \<and>
         msg_confidence_score (last (messages db')) =
           (if docs = [] then None else Some (min (sum_list rs / real (length rs)) 1)) \<and>
         msg_content (last (messages db')) = answer \<and>
         \<not> msg_is_user_message (last (messages db')) \<and>
         map_of res ''message_id'' = Some (PyInt (int (msg_id (last (messages db')))))"
proof -
  let ?score = "if docs = [] then None else Some (min (sum_list rs / real (length rs)) 1)"
  let ?db2 = "fst (save_message db1 conv msg True PyNone None (env_now_user ev))"
  let ?saved = "save_message ?db2 conv answer False
                    (PyList (map PyDict (map source_info docs))) ?score (env_now_ai ev)"
  have conf: "confidence (map source_info docs) = Inr ?score"
    using assms(3) by (rule confidence_numbers)
  have upd: "messages (update_conversation d c f) = messages d" for d c f
    by (simp add: update_conversation_def)
  have "messages db' = messages ?db2 @ [snd ?saved]"
    using generate_response_succeeds [OF assms(1,2) conf] assms(4)
    by (auto simp: Let_def upd save_message_messages split: if_splits)
  then have last: "last (messages db') = snd ?saved"
    by simp
  have res: "map_of res ''confidence_score'' = Some (optional_float ?score)"
    "map_of res ''message_id'' = Some (PyInt (int (msg_id (snd ?saved))))"
    using generate_response_succeeds [OF assms(1,2) conf] assms(4)
    by (auto simp: Let_def)
  have "optional_float ?score =
      (if docs = [] then PyNone else PyFloat (min (sum_list rs / real (length rs)) 1))"
    by (simp add: optional_float_def)
  with res last show ?thesis
    by (simp add: save_message_fields)
qed

text \<open>
  The hypotheses of the theorem above hold for a first call whose chain
  returns two sources with relevance 0.9 and 0.7; the confidence is 0.8.
\<close>

theorem confidence_is_clamped_mean_witness:
  "get_or_create_conversation empty_database (lit ''ann@example.com'') None
       (env_uuid4 (answering_env two_sources)) = (first_database, Inr (fresh_conversation, ann)) \<and>
   env_chain (answering_env two_sources) (load_conversation_history first_database fresh_conversation)
       remote_question = Inr (lit ''Two days per week.'', two_sources) \<and>
   map (\<lambda>d. number (get_or (metadata d) ''relevance_score'' (PyInt 0))) two_sources =
       map Inr [9 / 10, 7 / 10] \<and>
   (\<exists>db' res. generate_response (answering_env two_sources) empty_database (lit ''ann@example.com'')
         remote_question None = (db', res) \<and>
      map_of res ''confidence_score'' = Some (PyFloat (4 / 5)) \<and>
      msg_confidence_score (last (messages db')) = Some (4 / 5) \<and>
      msg_content (last (messages db')) = lit ''Two days per week.'' \<and>
      \<not> msg_is_user_message (last (messages db')) \<and>
      map_of res ''message_id'' = Some (PyInt (int (msg_id (last (messages db'))))))"
proof -
  have h1: "get_or_create_conversation empty_database (lit ''ann@example.com'') None
       (env_uuid4 (answering_env two_sources)) = (first_database, Inr (fresh_conversation, ann))"
    by (simp only: answering_env_fields first_call_resolution)
  have h2: "env_chain (answering_env two_sources)
       (load_conversation_history first_database fresh_conversation) remote_question =
       Inr (lit ''Two days per week.'', two_sources)"
    by (simp only: answering_env_fields)
  have h3: "map (\<lambda>d. number (get_or (metadata d) ''relevance_score'' (PyInt 0))) two_sources =
       map Inr [9 / 10, 7 / 10]"
    by (simp add: two_sources_def get_or_def)
  obtain db2 res2 where run: "generate_response (answering_env two_sources) empty_database
      (lit ''ann@example.com'') remote_question None = (db2, res2)"
    by (cases "generate_response (answering_env two_sources) empty_database
      (lit ''ann@example.com'') remote_question None") blast
  have vals: "(if two_sources = [] then None
       else Some (min (sum_list [9 / 10, 7 / 10] / real (length [9 / 10, 7 / (10::real)])) 1)) =
      Some (4 / 5)"
    "(if two_sources = [] then PyNone
       else PyFloat (min (sum_list [9 / 10, 7 / 10] / real (length [9 / 10, 7 / (10::real)])) 1)) =
      PyFloat (4 / 5)"
    by (simp_all add: two_sources_def)
  show ?thesis
    using confidence_is_clamped_mean [OF h1 h2 h3 run] h1 h2 h3 run
    unfolding vals by blast
qed

section \<open>Conversation titles\<close>

lemma next_id_fresh: "next_id ids \<notin> set ids"
proof
  assume "next_id ids \<in> set ids"
  then have "next_id ids \<le> Max (set (0 # ids))"
    by simp
  also have "\<dots> = fold max ids 0"
    by (rule Max.set_eq_fold)
  finally show False
    by (simp add: next_id_def)
qed

lemma find_snoc:
  "find P (xs @ [y]) = (case find P xs of Some x \<Rightarrow> Some x | None \<Rightarrow> if P y then Some y else None)"
  by (induction xs) auto

lemma find_member: "find P xs = Some x \<Longrightarrow> x \<in> set xs"
  by (induction xs) (auto split: if_splits)

lemma title_of_append:
  "title_of (db\<lparr>conversations := conversations db @ [c]\<rparr>) cid =
     (case title_of db cid of
        Some t \<Rightarrow> Some t
      | None \<Rightarrow> if conv_id c = cid then Some (conv_title c) else None)"
  by (simp add: title_of_def find_snoc split: option.splits)

lemma find_update:
  "map_option conv_title
     (find (\<lambda>c. conv_id c = cid') (map (\<lambda>c. if conv_id c = cid then f c else c) cs)) =
   (if cid' = cid
    then map_option (\<lambda>c. conv_title (f c)) (find (\<lambda>c. conv_id c = cid') cs)
    else map_option conv_title (find (\<lambda>c. conv_id c = cid') cs))"
  if "\<And>c. conv_id (f c) = conv_id c"
  using that by (induction cs) auto

lemma title_of_update:
  assumes "\<And>c. conv_id (f c) = conv_id c"
  shows "title_of (update_conversation db cid f) cid' =
     (if cid' = cid
      then map_option (\<lambda>c. conv_title (f c)) (find (\<lambda>c. conv_id c = cid') (conversations db))
      else title_of db cid')"
  using find_update [OF assms] by (simp add: title_of_def update_conversation_def)

lemma ids_update:
  assumes "\<And>c. conv_id (f c) = conv_id c"
  shows "map conv_id (conversations (update_conversation db cid f)) = map conv_id (conversations db)"
  using assms by (simp add: update_conversation_def comp_def)

lemma save_message_title:
  "title_of (fst (save_message db conv content u sd cs now)) cid = title_of db cid"
proof -
  let ?db1 = "db\<lparr>messages := messages db @
      [\<lparr>msg_id = next_id (map msg_id (messages db)), msg_conversation_id = conv_id conv,
        msg_content = content, msg_is_user_message = u, msg_timestamp = now,
        msg_source_documents = sd, msg_confidence_score = cs\<rparr>]\<rparr>"
  have "title_of (update_conversation ?db1 (conv_id conv) (\<lambda>c. c\<lparr>conv_last_message_at := Some now\<rparr>)) cid =
      title_of ?db1 cid"
    by (subst title_of_update) (auto simp: title_of_def option.map_comp comp_def)
  then show ?thesis
    by (simp add: save_message_def Let_def title_of_def)
qed

lemma save_message_ids:
  "map conv_id (conversations (fst (save_message db conv content u sd cs now))) =
     map conv_id (conversations db)"
  by (simp add: save_message_def Let_def ids_update)

lemma title_of_member:
  assumes "distinct (map conv_id cs)" "c \<in> set cs"
  shows "find (\<lambda>x. conv_id x = conv_id c) cs = Some c"
  using assms by (induction cs) (auto simp: image_iff)

text \<open>What resolving the conversation does to the titles.\<close>

lemma get_or_create_titles:
  assumes "get_or_create_conversation db email sid fresh = (db1, r)" "db_ok db"
  shows "db_ok db1 \<and>
         (\<forall>cid t. title_of db cid = Some t \<longrightarrow> title_of db1 cid = Some t) \<and>
         (\<forall>cid. title_of db cid = None \<longrightarrow> title_of db1 cid \<in> {None, Some NEW_CHAT}) \<and>
         (\<forall>conv usr. r = Inr (conv, usr) \<longrightarrow> title_of db1 (conv_id conv) = Some (conv_title conv))"
proof -
  obtain db0 usr where gu: "get_or_create_user db email = (db0, usr)"
    by (cases "get_or_create_user db email") blast
  then have convs0: "conversations db0 = conversations db"
    by (auto simp: get_or_create_user_def Let_def split: option.splits)
  then have t0: "title_of db0 cid = title_of db cid" for cid
    by (simp add: title_of_def)
  have ok0: "db_ok db0"
    using assms(2) convs0 by (simp add: db_ok_def)
  let ?found = "if given sid \<noteq> []
       then find (\<lambda>c. conv_session_id c = given sid \<and> conv_user_id c = user_id usr \<and>
                      conv_is_active c) (conversations db0)
       else None"
  let ?c = "\<lparr>conv_id = next_id (map conv_id (conversations db0)),
             conv_user_id = user_id usr,
             conv_session_id = (if given sid \<noteq> [] then given sid else fresh),
             conv_title = NEW_CHAT, conv_is_active = True, conv_last_message_at = None\<rparr>"
  show ?thesis
  proof (cases ?found)
    case (Some c)
    then have res: "db1 = db0" "r = Inr (c, usr)"
      using assms(1) by (simp_all add: get_or_create_conversation_def gu Let_def)
    from Some have "c \<in> set (conversations db0)"
      by (auto dest: find_member split: if_splits)
    then have "title_of db0 (conv_id c) = Some (conv_title c)"
      using ok0 title_of_member [of "conversations db0" c] by (simp add: db_ok_def title_of_def)
    then show ?thesis
      using res ok0 t0 by auto
  next
    case None
    show ?thesis
    proof (cases "conv_session_id ?c \<in> set (map conv_session_id (conversations db0))")
      case True
      then have "db1 = db0" "r = Inl integrity_error"
        using assms(1) None by (simp_all add: get_or_create_conversation_def gu Let_def)
      then show ?thesis
        using ok0 t0 by auto
    next
      case False
      then have res: "db1 = db0\<lparr>conversations := conversations db0 @ [?c]\<rparr>" "r = Inr (?c, usr)"
        using assms(1) None by (simp_all add: get_or_create_conversation_def gu Let_def)
      have fresh: "conv_id ?c \<notin> set (map conv_id (conversations db0))"
        using next_id_fresh [of "map conv_id (conversations db0)"] by simp
      then have none: "title_of db0 (conv_id ?c) = None"
        by (force simp: title_of_def find_None_iff)
      have ok1: "db_ok db1"
        using ok0 fresh by (simp add: db_ok_def res(1))
      have t1: "title_of db1 cid = (case title_of db0 cid of Some t \<Rightarrow> Some t
          | None \<Rightarrow> if conv_id ?c = cid then Some (conv_title ?c) else None)" for cid
        unfolding res(1) by (rule title_of_append)
      have "title_of db1 (conv_id ?c) = Some (conv_title ?c)"
        using t1 [of "conv_id ?c"] none by simp
      moreover have "\<forall>cid t. title_of db cid = Some t \<longrightarrow> title_of db1 cid = Some t"
        using t1 t0 by simp
      moreover have "\<forall>cid. title_of db cid = None \<longrightarrow> title_of db1 cid \<in> {None, Some NEW_CHAT}"
        using t1 t0 by simp
      ultimately show ?thesis
        using ok1 res(2) by simp
    qed
  qed
qed

lemma title_of_set_title:
  "title_of (update_conversation db cid (\<lambda>c. c\<lparr>conv_title := t\<rparr>)) cid' =
     (if cid' = cid then map_option (\<lambda>_. t) (title_of db cid') else title_of db cid')"
  by (subst title_of_update) (auto simp: title_of_def option.map_comp comp_def)

lemma db_ok_cong:
  "map conv_id (conversations db') = map conv_id (conversations db) \<Longrightarrow> db_ok db' = db_ok db"
  by (simp add: db_ok_def)

text \<open>What a call does to the titles, from the resolved database on.\<close>

lemma generate_response_db:
  assumes "get_or_create_conversation db email sid (env_uuid4 ev) = (db1, r)"
    and "generate_response ev db email msg sid = (db', res)"
  shows "map conv_id (conversations db') = map conv_id (conversations db1) \<and>
         ((\<forall>cid. title_of db' cid = title_of db1 cid) \<or>
          (\<exists>conv usr. r = Inr (conv, usr) \<and> conv_title conv = NEW_CHAT \<and> length msg > 10 \<and>
             (\<forall>cid. title_of db' cid =
                (if cid = conv_id conv then map_option (\<lambda>_. title_from msg) (title_of db1 cid)
                 else title_of db1 cid))))"
proof (cases r)
  case (Inl e)
  then show ?thesis
    using assms by (simp add: generate_response_def)
next
  case (Inr p)
  obtain conv usr where p: "p = (conv, usr)" by (cases p)
  let ?db2 = "fst (save_message db1 conv msg True PyNone None (env_now_user ev))"
  have ids2: "map conv_id (conversations ?db2) = map conv_id (conversations db1)"
    by (rule save_message_ids)
  have t2: "title_of ?db2 cid = title_of db1 cid" for cid
    by (rule save_message_title)
  show ?thesis
  proof (cases "env_chain ev (load_conversation_history db1 conv) msg")
    case (Inl e)
    then have "db' = ?db2"
      using assms Inr p by (simp add: generate_response_def Let_def split: prod.splits)
    then show ?thesis using ids2 t2 by simp
  next
    case chain: (Inr q)
    obtain answer docs where q: "q = (answer, docs)" by (cases q)
    show ?thesis
    proof (cases "confidence (map source_info docs)")
      case (Inl e)
      then have "db' = ?db2"
        using assms Inr p chain q by (simp add: generate_response_def Let_def split: prod.splits)
      then show ?thesis using ids2 t2 by simp
    next
      case conf: (Inr score)
      let ?db3 = "fst (save_message ?db2 conv answer False
          (PyList (map PyDict (map source_info docs))) score (env_now_ai ev))"
      have ids3: "map conv_id (conversations ?db3) = map conv_id (conversations db1)"
        using ids2 by (simp add: save_message_ids)
      have t3: "title_of ?db3 cid = title_of db1 cid" for cid
        using t2 by (simp add: save_message_title)
      show ?thesis
      proof (cases "conv_title conv = NEW_CHAT \<and> length msg > 10")
        case True
        then have db': "db' = update_conversation ?db3 (conv_id conv)
            (\<lambda>c. c\<lparr>conv_title := title_from msg\<rparr>)"
          using assms Inr p chain q conf
          by (simp add: generate_response_def Let_def split: prod.splits)
        have "map conv_id (conversations db') = map conv_id (conversations db1)"
          unfolding db' using ids3 by (simp add: ids_update)
        moreover have "title_of db' cid =
            (if cid = conv_id conv then map_option (\<lambda>_. title_from msg) (title_of db1 cid)
             else title_of db1 cid)" for cid
          unfolding db' by (simp add: title_of_set_title save_message_title)
        ultimately show ?thesis
          using True Inr p by blast
      next
        case False
        then have "db' = ?db3"
          using assms Inr p chain q conf
          by (auto simp: generate_response_def Let_def split: prod.splits)
        then show ?thesis using ids3 t3 by simp
      qed
    qed
  qed
qed

lemma title_from_not_placeholder:
  assumes "length msg > 10"
  shows "title_from msg \<noteq> NEW_CHAT"
proof
  assume "title_from msg = NEW_CHAT"
  then have "length (title_from msg) = length NEW_CHAT" by simp
  then show False
    using assms by (simp add: title_from_def NEW_CHAT_def lit_def split: if_splits)
qed

lemma generate_response_titles:
  assumes "db_ok db" and "generate_response ev db email msg sid = (db', res)"
  shows "db_ok db'"
    and "title_of db cid = Some t \<Longrightarrow>
           title_of db' cid = Some t \<or>
           (t = NEW_CHAT \<and> length msg > 10 \<and> title_of db' cid = Some (title_from msg))"
    and "title_of db cid = None \<Longrightarrow>
           title_of db' cid = None \<or> title_of db' cid = Some NEW_CHAT \<or>
           (length msg > 10 \<and> title_of db' cid = Some (title_from msg))"
proof -
  obtain db1 r where g: "get_or_create_conversation db email sid (env_uuid4 ev) = (db1, r)"
    by (cases "get_or_create_conversation db email sid (env_uuid4 ev)") blast
  note G = get_or_create_titles [OF g assms(1)]
  note R = generate_response_db [OF g assms(2)]
  show "db_ok db'"
    using G R db_ok_cong by blast
  show "title_of db' cid = Some t \<or>
        (t = NEW_CHAT \<and> length msg > 10 \<and> title_of db' cid = Some (title_from msg))"
    if "title_of db cid = Some t"
  proof -
    have t1: "title_of db1 cid = Some t" using G that by blast
    from R consider "\<forall>cid. title_of db' cid = title_of db1 cid"
      | conv usr where "r = Inr (conv, usr)" "conv_title conv = NEW_CHAT" "length msg > 10"
          "\<forall>cid. title_of db' cid =
                (if cid = conv_id conv then map_option (\<lambda>_. title_from msg) (title_of db1 cid)
                 else title_of db1 cid)"
      by blast
    then show ?thesis
    proof cases
      case 1
      then show ?thesis using t1 by simp
    next
      case 2
      have "title_of db1 (conv_id conv) = Some (conv_title conv)"
        using G 2(1) by blast
      then show ?thesis
        using 2 t1 by (cases "cid = conv_id conv") simp_all
    qed
  qed
  show "title_of db' cid = None \<or> title_of db' cid = Some NEW_CHAT \<or>
        (length msg > 10 \<and> title_of db' cid = Some (title_from msg))"
    if "title_of db cid = None"
  proof -
    have t1: "title_of db1 cid = None \<or> title_of db1 cid = Some NEW_CHAT" using G that by blast
    from R consider "\<forall>cid. title_of db' cid = title_of db1 cid"
      | conv usr where "r = Inr (conv, usr)" "conv_title conv = NEW_CHAT" "length msg > 10"
          "\<forall>cid. title_of db' cid =
                (if cid = conv_id conv then map_option (\<lambda>_. title_from msg) (title_of db1 cid)
                 else title_of db1 cid)"
      by blast
    then show ?thesis
    proof cases
      case 1
      then show ?thesis using t1 by auto
    next
      case 2
      then show ?thesis
        using t1 by (cases "cid = conv_id conv") auto
    qed
  qed
qed

lemma title_stable:
  assumes "db_ok db" "title_of db cid = Some t" "t \<noteq> NEW_CHAT"
  shows "title_of (run_calls db calls) cid = Some t"
  using assms
proof (induction calls arbitrary: db)
  case Nil
  then show ?case by simp
next
  case (Cons c calls)
  let ?r = "generate_response (call_env c) db (call_email c) (call_message c) (call_session_id c)"
  have run: "?r = (fst ?r, snd ?r)" by simp
  have "db_ok (fst ?r)"
    using generate_response_titles(1) [OF Cons.prems(1) run] .
  moreover have "title_of (fst ?r) cid = Some t"
    using generate_response_titles(2) [OF Cons.prems(1) run Cons.prems(2)] Cons.prems(3) by blast
  ultimately show ?case
    using Cons.IH Cons.prems(3) by simp
qed

text \<open>
  C9. When a call of \<open>generate_response\<close> gives a conversation a title \<open>t\<close> other
  than the placeholder that it did not have before, then before the call the conversation
  had the placeholder \<open>New Chat\<close> (or did not exist yet), the user's message is longer
  than 10 characters, \<open>t\<close> is its first 50 characters, followed by \<open>...\<close> exactly when the
  message is longer than 50, and after any further sequence of calls the conversation
  still has the title \<open>t\<close>.
\<close>

theorem title_assigned_once:
  assumes "db_ok db"
    and "generate_response ev db email msg sid = (db1, res)"
    and "title_of db1 cid = Some t" and "title_of db cid \<noteq> Some t" and "t \<noteq> NEW_CHAT"
  shows "(title_of db cid = None \<or> title_of db cid = Some NEW_CHAT) \<and>
         length msg > 10 \<and>
         t = take 50 msg @ (if length msg > 50 then lit ''...'' else []) \<and>
         (\<forall>calls. title_of (run_calls db1 calls) cid = Some t)"
proof -
  have ok1: "db_ok db1"
    using generate_response_titles(1) [OF assms(1,2)] .
  have stable: "\<forall>calls. title_of (run_calls db1 calls) cid = Some t"
    using title_stable [OF ok1 assms(3,5)] by blast
  show ?thesis
  proof (cases "title_of db cid")
    case None
    then show ?thesis
      using generate_response_titles(3) [OF assms(1,2) None] assms(3,5) stable
      by (auto simp: title_from_def)
  next
    case (Some t0)
    then show ?thesis
      using generate_response_titles(2) [OF assms(1,2) Some] assms(3,4,5) stable
      by (auto simp: title_from_def)
  qed
qed

lemma first_answer_title:
  assumes "generate_response (answering_env []) empty_database (lit ''ann@example.com'')
      remote_question None = (db1, res)"
  shows "title_of db1 1 = Some (title_from remote_question)"
proof -
  have conf: "confidence (map source_info []) = Inr None"
    by (simp add: confidence_def)
  have g: "get_or_create_conversation empty_database (lit ''ann@example.com'') None
      (env_uuid4 (answering_env [])) = (first_database, Inr (fresh_conversation, ann))"
    by (simp only: answering_env_fields first_call_resolution)
  have c: "env_chain (answering_env []) (load_conversation_history first_database fresh_conversation)
      remote_question = Inr (lit ''Two days per week.'', [])"
    by (simp only: answering_env_fields)
  have assign: "conv_title fresh_conversation = NEW_CHAT \<and> length remote_question > 10"
    by (simp add: fresh_conversation_def remote_question_length)
  have "title_of first_database 1 = Some NEW_CHAT"
    by (simp add: title_of_def first_database_def fresh_conversation_def)
  moreover have "conv_id fresh_conversation = 1"
    by (simp add: fresh_conversation_def)
  ultimately show ?thesis
    using generate_response_succeeds [OF g c conf] assms assign
    by (auto simp: Let_def title_of_set_title save_message_title)
qed

text \<open>
  The hypotheses of the theorem above hold for the first call of the title scenario: the
  question of 61 characters gives the title of its first 50 characters and \<open>...\<close>.
\<close>

theorem title_assigned_once_witness:
  "db_ok empty_database \<and>
   (\<exists>db1 res. generate_response (answering_env []) empty_database (lit ''ann@example.com'')
        remote_question None = (db1, res) \<and>
      title_of db1 1 = Some (lit ''What is our remote work policy and how many days a...'') \<and>
      title_of empty_database 1 \<noteq> Some (lit ''What is our remote work policy and how many days a...'') \<and>
      lit ''What is our remote work policy and how many days a...'' \<noteq> NEW_CHAT \<and>
      (title_of empty_database 1 = None \<or> title_of empty_database 1 = Some NEW_CHAT) \<and>
      length remote_question > 10 \<and>
      lit ''What is our remote work policy and how many days a...'' =
        take 50 remote_question @ (if length remote_question > 50 then lit ''...'' else []) \<and>
      (\<forall>calls. title_of (run_calls db1 calls) 1 =
         Some (lit ''What is our remote work policy and how many days a...'')))"
proof -
  let ?t = "lit ''What is our remote work policy and how many days a...''"
  obtain db1 res where run: "generate_response (answering_env []) empty_database
      (lit ''ann@example.com'') remote_question None = (db1, res)"
    by (cases "generate_response (answering_env []) empty_database
      (lit ''ann@example.com'') remote_question None") blast
  have t: "title_from remote_question = ?t"
    by (simp add: title_from_def remote_question_def lit_def)
  have h0: "db_ok empty_database"
    by (simp add: db_ok_def empty_database_def)
  have h1: "title_of db1 1 = Some ?t"
    using first_answer_title [OF run] t by simp
  have h2: "title_of empty_database 1 \<noteq> Some ?t"
    by (simp add: title_of_def empty_database_def)
  have h3: "?t \<noteq> NEW_CHAT"
    by (simp add: NEW_CHAT_def lit_def)
  show ?thesis
    using title_assigned_once [OF h0 run h1 h2 h3] h0 run h1 h2 h3 by blast
qed

section \<open>Similarity\<close>












lemma zero_or_nan_simps [simp]:
  "zero_or_nan NaN" "zero_or_nan (Finite s x) = (x = 0)" "\<not> zero_or_nan (Infinity s)"
  by (simp_all add: zero_or_nan_def)

lemma round64_zero [simp]: "round64 s 0 = Finite s 0"
  by (simp add: round64_def)



































section \<open>Retrieval\<close>
















end
